theory Spec2Isabelle
  imports Main
begin

section \<open>The intermediate representation the pass works on\<close>

text \<open>
  The pass of \<^verbatim>\<open>ThreadSanitizer.cpp\<close> rewrites one LLVM function at a time. The model keeps
  the part of the IR the pass reads and writes: types, values (operands), instructions
  and functions. An original instruction that the pass may look up again carries an
  identifier (its address in the compiler); instructions created by the pass carry none.
\<close>

type_synonym ident = nat

datatype AtomicOrdering =
  NotAtomic | Unordered | Monotonic | Acquire | Release | AcquireRelease
  | SequentiallyConsistent

datatype SynchronizationScope = SingleThread | CrossThread

datatype BinOp = Xchg | Add | Sub | And | Nand | Or | Xor | MaxOp | MinOp | UMax | UMin

datatype MemKind = MemSet | MemCpy | MemMove

datatype Type =
    IntegerTy nat
  | PointerTy Type nat
  | VectorTy Type nat
  | StructTy "Type list"
  | OtherTy string
  | VoidTy
  | OpaqueTy

text \<open>
  Values. The first group are the operands found in the input; the \<open>Create\<close>
  constructors are the values the pass builds through \<^verbatim>\<open>IRBuilder\<close>, kept as the tree of
  builder calls; \<open>ProbeResult i ty\<close> is the result of the probe call emitted for the
  instruction \<open>i\<close>.
\<close>

datatype Value =
    GlobalVariable string string bool Type
  | GetElementPtrInst ident Value Type
  | LoadValue ident Value bool Type
  | AllocaInst ident Type
  | InstRef ident Type
  | Argument nat Type
  | ConstantInt nat nat
  | UndefValue Type
  | ProbeResult ident Type
  | CreatePointerCast Value Type
  | CreateIntCast Value Type bool
  | CreateBitOrPointerCast Value Type
  | CreateIntToPtr Value Type
  | CreateExtractElement Value Value
  | CreateICmpEQ Value Value
  | CreateInsertValue Value Value nat

text \<open>
  The callbacks of \<^verbatim>\<open>initializeCallbacks\<close>, indexed as the arrays of the pass are, and any
  other function (\<open>OtherFn name nounwind\<close>).
\<close>

datatype Callee =
    TsanPrintVariables
  | TsanFuncEntry | TsanFuncExit | TsanMainFuncExit
  | TsanIgnoreBegin | TsanIgnoreEnd
  | TsanRead nat | TsanWrite nat | TsanUnalignedRead nat | TsanUnalignedWrite nat
  | TsanAtomicLoad nat | TsanAtomicStore nat | TsanAtomicRMWFn BinOp nat | TsanAtomicCAS nat
  | TsanAtomicThreadFence | TsanAtomicSignalFence
  | TsanVptrUpdate | TsanVptrLoad
  | MemmoveFn | MemcpyFn | MemsetFn
  | OtherFn string bool

datatype Instruction =
    LoadInst ident Value AtomicOrdering SynchronizationScope nat bool
  | StoreInst ident Value Value AtomicOrdering SynchronizationScope nat bool
  | AtomicRMWInst ident BinOp Value Value AtomicOrdering
  | AtomicCmpXchgInst ident Value Value Value AtomicOrdering AtomicOrdering
  | FenceInst ident AtomicOrdering SynchronizationScope
  | MemIntrinsic ident MemKind Value Value Value
  | CallInst "ident option" Callee "Value list"
  | InvokeInst "ident option" Callee "Value list"
  | PHINode
  | LandingPadInst
  | ReturnInst
  | ResumeInst
  | OtherTerminator
  | OtherInst

datatype Error = Unreachable | AssertionFailed

section \<open>The ordering argument of the atomic probes\<close>

text \<open>
  \<^verbatim>\<open>createOrdering\<close>: the switch over the ordering; \<^verbatim>\<open>llvm_unreachable\<close> is the error
  \<open>Unreachable\<close>. The result is the 32-bit constant \<^verbatim>\<open>IRB->getInt32(v)\<close>.
\<close>

definition getInt32 :: "nat \<Rightarrow> Value" where
  "getInt32 v = ConstantInt 32 (v mod 2 ^ 32)"

fun createOrdering :: "AtomicOrdering \<Rightarrow> Error + Value" where
  "createOrdering NotAtomic = Inl Unreachable"
| "createOrdering Unordered = Inr (getInt32 0)"
| "createOrdering Monotonic = Inr (getInt32 0)"
| "createOrdering Acquire = Inr (getInt32 2)"
| "createOrdering Release = Inr (getInt32 3)"
| "createOrdering AcquireRelease = Inr (getInt32 4)"
| "createOrdering SequentiallyConsistent = Inr (getInt32 5)"

text \<open>
  The five orderings of the specification, the ordering of the IR each stands for, and
  the encoding the specification gives them.
\<close>

datatype MemoryOrdering = Relaxed | Acq | Rel | AcqRel | SeqCst

fun supported :: "AtomicOrdering \<Rightarrow> MemoryOrdering option" where
  "supported NotAtomic = None"
| "supported Unordered = Some Relaxed"
| "supported Monotonic = Some Relaxed"
| "supported Acquire = Some Acq"
| "supported Release = Some Rel"
| "supported AcquireRelease = Some AcqRel"
| "supported SequentiallyConsistent = Some SeqCst"

fun spec_encoding :: "MemoryOrdering \<Rightarrow> nat" where
  "spec_encoding Relaxed = 0"
| "spec_encoding Acq = 2"
| "spec_encoding Rel = 3"
| "spec_encoding AcqRel = 4"
| "spec_encoding SeqCst = 5"

section \<open>Types, operands and the collaborators of the pass\<close>

definition getInt8Ty :: Type where
  "getInt8Ty = IntegerTy 8"

definition getInt32Ty :: Type where
  "getInt32Ty = IntegerTy 32"

definition getIntNTy :: "nat \<Rightarrow> Type" where
  "getIntNTy n = IntegerTy n"

definition getPointerTo :: "Type \<Rightarrow> Type" where
  "getPointerTo ty = PointerTy ty 0"

definition getInt8PtrTy :: Type where
  "getInt8PtrTy = getPointerTo getInt8Ty"

fun getScalarType :: "Type \<Rightarrow> Type" where
  "getScalarType (VectorTy t n) = t"
| "getScalarType t = t"

text \<open>
  \<^verbatim>\<open>cast<PointerType>(T)->getPointerAddressSpace()\<close> and \<^verbatim>\<open>->getElementType()\<close>. The
  pass applies them to the type of the pointer operand of a memory instruction, which
  is a pointer type in every IR the verifier accepts; the last equations are never used
  there.
\<close>

fun getPointerAddressSpace :: "Type \<Rightarrow> nat" where
  "getPointerAddressSpace (PointerTy t a) = a"
| "getPointerAddressSpace t = 0"

fun getElementType :: "Type \<Rightarrow> Type" where
  "getElementType (PointerTy t a) = t"
| "getElementType t = t"

fun isIntegerTy :: "Type \<Rightarrow> bool" where
  "isIntegerTy (IntegerTy n) = True"
| "isIntegerTy t = False"

fun isVectorTy :: "Type \<Rightarrow> bool" where
  "isVectorTy (VectorTy t n) = True"
| "isVectorTy t = False"

fun isSized :: "Type \<Rightarrow> bool" where
  "isSized OpaqueTy = False"
| "isSized VoidTy = False"
| "isSized t = True"

fun getType :: "Value \<Rightarrow> Type" where
  "getType (GlobalVariable nm sec c ty) = ty"
| "getType (GetElementPtrInst i p ty) = ty"
| "getType (LoadValue i p vt ty) = ty"
| "getType (AllocaInst i ty) = ty"
| "getType (InstRef i ty) = ty"
| "getType (Argument n ty) = ty"
| "getType (ConstantInt w x) = IntegerTy w"
| "getType (UndefValue ty) = ty"
| "getType (ProbeResult i ty) = ty"
| "getType (CreatePointerCast v ty) = ty"
| "getType (CreateIntCast v ty isSigned) = ty"
| "getType (CreateBitOrPointerCast v ty) = ty"
| "getType (CreateIntToPtr v ty) = ty"
| "getType (CreateExtractElement v ix) = getScalarType (getType v)"
| "getType (CreateICmpEQ a b) = IntegerTy 1"
| "getType (CreateInsertValue agg v ix) = getType agg"

text \<open>Accessors of the instruction classes, total by a default that the pass never reads.\<close>

fun getPointerOperand :: "Instruction \<Rightarrow> Value" where
  "getPointerOperand (LoadInst i p ord sc al vt) = p"
| "getPointerOperand (StoreInst i v p ord sc al vt) = p"
| "getPointerOperand (AtomicRMWInst i op p v ord) = p"
| "getPointerOperand (AtomicCmpXchgInst i p c n so fo) = p"
| "getPointerOperand I = UndefValue OpaqueTy"

fun getValueOperand :: "Instruction \<Rightarrow> Value" where
  "getValueOperand (StoreInst i v p ord sc al vt) = v"
| "getValueOperand I = UndefValue OpaqueTy"

fun getAlignment :: "Instruction \<Rightarrow> nat" where
  "getAlignment (LoadInst i p ord sc al vt) = al"
| "getAlignment (StoreInst i v p ord sc al vt) = al"
| "getAlignment I = 0"

fun isaStoreInst :: "Instruction \<Rightarrow> bool" where
  "isaStoreInst (StoreInst i v p ord sc al vt) = True"
| "isaStoreInst I = False"

fun isaLoadInst :: "Instruction \<Rightarrow> bool" where
  "isaLoadInst (LoadInst i p ord sc al vt) = True"
| "isaLoadInst I = False"

text \<open>The identity of an instruction: the instructions the pass creates have none.\<close>

fun iid :: "Instruction \<Rightarrow> ident option" where
  "iid (LoadInst i p ord sc al vt) = Some i"
| "iid (StoreInst i v p ord sc al vt) = Some i"
| "iid (AtomicRMWInst i op p v ord) = Some i"
| "iid (AtomicCmpXchgInst i p c n so fo) = Some i"
| "iid (FenceInst i ord sc) = Some i"
| "iid (MemIntrinsic i k a0 a1 a2) = Some i"
| "iid (CallInst io f args) = io"
| "iid (InvokeInst io f args) = io"
| "iid I = None"

record Function =
  blocks :: "Instruction list list"
  name :: string
  SanitizeThread :: bool
  NoCheckingAtRunTime :: bool
  doesNotThrow :: bool
  isTsanCtorFunction :: bool

text \<open>
  The counters the pass declares with \<^verbatim>\<open>STATISTIC\<close>.
\<close>

record Stats =
  NumInstrumentedReads :: nat
  NumInstrumentedWrites :: nat
  NumOmittedReadsBeforeWrite :: nat
  NumAccessesWithBadSize :: nat
  NumInstrumentedVtableWrites :: nat
  NumInstrumentedVtableReads :: nat
  NumOmittedReadsFromConstantGlobals :: nat
  NumOmittedReadsFromVtable :: nat
  NumOmittedNonCaptured :: nat

text \<open>
  What the pass takes from outside this file, as parameters: the analyses and the data
  layout of LLVM, and the helpers of \<^verbatim>\<open>EmbedSanitizerDebugInfo.h\<close> and
  \<^verbatim>\<open>EmbedSanitizerExtension.h\<close> (\<open>getLineNumber\<close>, \<open>getObjectName\<close>, \<open>getFileName\<close>,
  \<open>getFuncName\<close>, \<open>getFuncNameStr\<close>, \<open>InstrIfSynchronization\<close>), whose sources are not
  part of the files verified here. \<open>CapturedByOtherUses\<close> is the verdict of the capture
  analysis of LLVM on the uses a pointer has in the function as the pass receives it; the
  uses the pass adds are accounted for in \<open>PointerMayBeCaptured\<close> below.
\<close>

record Env =
  stripInBoundsOffsets :: "Value \<Rightarrow> Value"
  GetUnderlyingObject :: "Value \<Rightarrow> Value"
  CapturedByOtherUses :: "Value \<Rightarrow> bool"
  isSwiftError :: "Value \<Rightarrow> bool"
  getTypeStoreSizeInBits :: "Type \<Rightarrow> nat"
  getPointerSizeInBits :: "nat \<Rightarrow> nat"
  IntptrTy :: Type
  getInstrProfCountersSectionName :: string
  getLineNumber :: "Instruction \<Rightarrow> Value"
  getObjectName :: "Value \<Rightarrow> Instruction \<Rightarrow> Value"
  getFileName :: "Instruction \<Rightarrow> Value"
  getFuncName :: "Function \<Rightarrow> Value"
  getFuncNameStr :: "Function \<Rightarrow> string"
  InstrIfSynchronization :: "Instruction \<Rightarrow> Instruction list list \<Rightarrow> Instruction list list"

text \<open>The command-line switches of the pass; all are on by default.\<close>

record Options =
  ClInstrumentMemoryAccesses :: bool
  ClInstrumentFuncEntryExit :: bool
  ClHandleCxxExceptions :: bool
  ClInstrumentAtomics :: bool
  ClInstrumentMemIntrinsics :: bool

definition default_options :: Options where
  "default_options =
     \<lparr>ClInstrumentMemoryAccesses = True, ClInstrumentFuncEntryExit = True,
      ClHandleCxxExceptions = True, ClInstrumentAtomics = True,
      ClInstrumentMemIntrinsics = True\<rparr>"

section \<open>The address classifier\<close>

definition startswith :: "string \<Rightarrow> string \<Rightarrow> bool" where
  "startswith s p = (take (length p) s = p)"

definition endswith :: "string \<Rightarrow> string \<Rightarrow> bool" where
  "endswith s p = (length p \<le> length s \<and> drop (length s - length p) s = p)"

fun isVtableAccess :: "Instruction \<Rightarrow> bool" where
  "isVtableAccess (LoadInst i p ord sc al vt) = vt"
| "isVtableAccess (StoreInst i v p ord sc al vt) = vt"
| "isVtableAccess I = False"

text \<open>
  \<^verbatim>\<open>shouldInstrumentReadWriteFromAddress\<close>. A global has a section when the name of its
  section is not empty.
\<close>

definition shouldInstrumentReadWriteFromAddress :: "Env \<Rightarrow> Value \<Rightarrow> bool" where
  "shouldInstrumentReadWriteFromAddress env Addr0 =
     (let Addr = stripInBoundsOffsets env Addr0 in
      if (case Addr of
            GlobalVariable nm sec c ty \<Rightarrow>
              (sec \<noteq> [] \<and> endswith sec (getInstrProfCountersSectionName env))
              \<or> startswith nm ''__llvm_gcov'' \<or> startswith nm ''__llvm_gcda''
          | _ \<Rightarrow> False)
      then False
      else if getPointerAddressSpace (getScalarType (getType Addr)) \<noteq> 0 then False
      else True)"

text \<open>\<^verbatim>\<open>addrPointsToConstantData\<close>, with the two counters it increments.\<close>

definition addrPointsToConstantData :: "Value \<Rightarrow> Stats \<Rightarrow> bool \<times> Stats" where
  "addrPointsToConstantData Addr0 st =
     (let Addr = (case Addr0 of GetElementPtrInst i p ty \<Rightarrow> p | _ \<Rightarrow> Addr0) in
      case Addr of
        GlobalVariable nm sec c ty \<Rightarrow>
          if c
          then (True, st\<lparr>NumOmittedReadsFromConstantGlobals :=
                            NumOmittedReadsFromConstantGlobals st + 1\<rparr>)
          else (False, st)
      | LoadValue i p vt ty \<Rightarrow>
          if vt
          then (True, st\<lparr>NumOmittedReadsFromVtable := NumOmittedReadsFromVtable st + 1\<rparr>)
          else (False, st)
      | _ \<Rightarrow> (False, st))"

section \<open>The probe table index\<close>

function countTrailingZeros :: "nat \<Rightarrow> nat" where
  "countTrailingZeros n =
     (if n = 0 then 32 else if odd n then 0 else Suc (countTrailingZeros (n div 2)))"
  by pat_completeness auto
termination
  by (relation "measure id") auto

declare countTrailingZeros.simps [simp del]

text \<open>The access size of index \<open>i\<close>: \<^verbatim>\<open>1U << i\<close> bytes.\<close>

definition ByteSize :: "nat \<Rightarrow> nat" where
  "ByteSize i = 2 ^ i"

definition BitSize :: "nat \<Rightarrow> nat" where
  "BitSize i = ByteSize i * 8"

definition kNumberOfAccessSizes :: nat where
  "kNumberOfAccessSizes = 5"

text \<open>
  \<^verbatim>\<open>getMemoryAccessFuncIndex\<close>. \<^verbatim>\<open>TypeSize\<close> is a \<^verbatim>\<open>uint32_t\<close>; the two \<^verbatim>\<open>assert\<close>s are
  errors.
\<close>

definition getMemoryAccessFuncIndex :: "Env \<Rightarrow> Value \<Rightarrow> Stats \<Rightarrow> Error + (int \<times> Stats)" where
  "getMemoryAccessFuncIndex env Addr st =
     (let OrigPtrTy = getType Addr;
          OrigTy = getElementType OrigPtrTy in
      if \<not> isSized OrigTy then Inl AssertionFailed
      else
        let TypeSize = getTypeStoreSizeInBits env OrigTy mod 2 ^ 32 in
        if TypeSize \<noteq> 8 \<and> TypeSize \<noteq> 16 \<and> TypeSize \<noteq> 32 \<and> TypeSize \<noteq> 64 \<and> TypeSize \<noteq> 128
        then Inr (- 1, st\<lparr>NumAccessesWithBadSize := NumAccessesWithBadSize st + 1\<rparr>)
        else
          let Idx = countTrailingZeros (TypeSize div 8) in
          if \<not> Idx < kNumberOfAccessSizes then Inl AssertionFailed
          else Inr (int Idx, st))"

section \<open>The declared signatures of the probes\<close>

text \<open>
  The parameter types \<^verbatim>\<open>initializeCallbacks\<close> declares for each callback; the atomic
  probes of index \<open>i\<close> work on the integer type of \<open>BitSize i\<close> bits.
\<close>

fun paramTypes :: "Env \<Rightarrow> Callee \<Rightarrow> Type list" where
  "paramTypes env TsanPrintVariables = [getInt32Ty, getInt8PtrTy]"
| "paramTypes env TsanMainFuncExit = []"
| "paramTypes env TsanFuncEntry = [getInt8PtrTy]"
| "paramTypes env TsanFuncExit = []"
| "paramTypes env TsanIgnoreBegin = []"
| "paramTypes env TsanIgnoreEnd = []"
| "paramTypes env (TsanRead i) = [getInt8PtrTy, getInt8Ty, getInt8PtrTy, getInt8PtrTy]"
| "paramTypes env (TsanWrite i) = [getInt8PtrTy, getInt8Ty, getInt8PtrTy, getInt8PtrTy]"
| "paramTypes env (TsanUnalignedRead i) =
     [getInt8PtrTy, getInt8Ty, getInt8PtrTy, getInt8PtrTy]"
| "paramTypes env (TsanUnalignedWrite i) =
     [getInt8PtrTy, getInt8Ty, getInt8PtrTy, getInt8PtrTy]"
| "paramTypes env (TsanAtomicLoad i) =
     [getPointerTo (getIntNTy (BitSize i)), getInt32Ty]"
| "paramTypes env (TsanAtomicStore i) =
     [getPointerTo (getIntNTy (BitSize i)), getIntNTy (BitSize i), getInt32Ty]"
| "paramTypes env (TsanAtomicRMWFn op i) =
     [getPointerTo (getIntNTy (BitSize i)), getIntNTy (BitSize i), getInt32Ty]"
| "paramTypes env (TsanAtomicCAS i) =
     [getPointerTo (getIntNTy (BitSize i)), getIntNTy (BitSize i), getIntNTy (BitSize i),
      getInt32Ty, getInt32Ty]"
| "paramTypes env TsanVptrUpdate =
     [getInt8PtrTy, getInt8PtrTy, getInt8Ty, getInt8PtrTy, getInt8PtrTy]"
| "paramTypes env TsanVptrLoad = [getInt8PtrTy, getInt8Ty, getInt8PtrTy, getInt8PtrTy]"
| "paramTypes env TsanAtomicThreadFence = [getInt32Ty]"
| "paramTypes env TsanAtomicSignalFence = [getInt32Ty]"
| "paramTypes env MemmoveFn = [getInt8PtrTy, getInt8PtrTy, IntptrTy env]"
| "paramTypes env MemcpyFn = [getInt8PtrTy, getInt8PtrTy, IntptrTy env]"
| "paramTypes env MemsetFn = [getInt8PtrTy, getInt32Ty, IntptrTy env]"
| "paramTypes env (OtherFn nm nounwind) = []"

text \<open>
  Every callback is declared with the attribute \<^verbatim>\<open>NoUnwind\<close>, except
  \<^verbatim>\<open>__tsan_print_variables\<close>, which is declared with no attribute.
\<close>

fun calleeDoesNotThrow :: "Callee \<Rightarrow> bool" where
  "calleeDoesNotThrow TsanPrintVariables = False"
| "calleeDoesNotThrow (OtherFn nm nounwind) = nounwind"
| "calleeDoesNotThrow f = True"

text \<open>The names of the callbacks; \<^verbatim>\<open>utostr\<close> prints a number in decimal.\<close>

definition digit :: "nat \<Rightarrow> char" where
  "digit d = ''0123456789'' ! d"

function utostr :: "nat \<Rightarrow> string" where
  "utostr n = (if n < 10 then [digit n] else utostr (n div 10) @ [digit (n mod 10)])"
  by pat_completeness auto
termination
  by (relation "measure id") auto

declare utostr.simps [simp del]

fun NamePart :: "BinOp \<Rightarrow> string option" where
  "NamePart Xchg = Some ''_exchange''"
| "NamePart Add = Some ''_fetch_add''"
| "NamePart Sub = Some ''_fetch_sub''"
| "NamePart And = Some ''_fetch_and''"
| "NamePart Or = Some ''_fetch_or''"
| "NamePart Xor = Some ''_fetch_xor''"
| "NamePart Nand = Some ''_fetch_nand''"
| "NamePart op = None"

text \<open>
  The table \<^verbatim>\<open>TsanAtomicRMW[op][i]\<close>: a null pointer for the operations that have no
  name part.
\<close>

definition TsanAtomicRMW :: "BinOp \<Rightarrow> nat \<Rightarrow> Callee option" where
  "TsanAtomicRMW op i = (case NamePart op of None \<Rightarrow> None | Some n \<Rightarrow> Some (TsanAtomicRMWFn op i))"

fun calleeName :: "Callee \<Rightarrow> string" where
  "calleeName TsanPrintVariables = ''__tsan_print_variables''"
| "calleeName TsanMainFuncExit = ''__tsan_main_func_exit''"
| "calleeName TsanFuncEntry = ''__tsan_func_entry''"
| "calleeName TsanFuncExit = ''__tsan_func_exit''"
| "calleeName TsanIgnoreBegin = ''__tsan_ignore_thread_begin''"
| "calleeName TsanIgnoreEnd = ''__tsan_ignore_thread_end''"
| "calleeName (TsanRead i) = ''__tsan_read'' @ utostr (ByteSize i)"
| "calleeName (TsanWrite i) = ''__tsan_write'' @ utostr (ByteSize i)"
| "calleeName (TsanUnalignedRead i) = ''__tsan_unaligned_read'' @ utostr (ByteSize i)"
| "calleeName (TsanUnalignedWrite i) = ''__tsan_unaligned_write'' @ utostr (ByteSize i)"
| "calleeName (TsanAtomicLoad i) = ''__tsan_atomic'' @ utostr (BitSize i) @ ''_load''"
| "calleeName (TsanAtomicStore i) = ''__tsan_atomic'' @ utostr (BitSize i) @ ''_store''"
| "calleeName (TsanAtomicRMWFn op i) =
     ''__tsan_atomic'' @ utostr (BitSize i) @ (case NamePart op of Some n \<Rightarrow> n | None \<Rightarrow> [])"
| "calleeName (TsanAtomicCAS i) =
     ''__tsan_atomic'' @ utostr (BitSize i) @ ''_compare_exchange_val''"
| "calleeName TsanVptrUpdate = ''__tsan_vptr_update''"
| "calleeName TsanVptrLoad = ''__tsan_vptr_read''"
| "calleeName TsanAtomicThreadFence = ''__tsan_atomic_thread_fence''"
| "calleeName TsanAtomicSignalFence = ''__tsan_atomic_signal_fence''"
| "calleeName MemmoveFn = ''memmove''"
| "calleeName MemcpyFn = ''memcpy''"
| "calleeName MemsetFn = ''memset''"
| "calleeName (OtherFn nm nounwind) = nm"

section \<open>The edits of the function\<close>

text \<open>
  The function is rewritten in place, and the work lists of the pass hold pointers to
  its instructions; in the model an instruction is found again by its identifier.
  \<open>insertBefore I new\<close> is what a builder positioned at \<open>I\<close> does with the
  instructions it creates, \<open>eraseFromParent I\<close> removes \<open>I\<close>.
\<close>

definition sameInst :: "Instruction \<Rightarrow> Instruction \<Rightarrow> bool" where
  "sameInst I x = (iid I \<noteq> None \<and> iid x = iid I)"

definition insertBefore ::
  "Instruction \<Rightarrow> Instruction list \<Rightarrow> Instruction list list \<Rightarrow> Instruction list list" where
  "insertBefore I new ir =
     map (\<lambda>b. concat (map (\<lambda>x. if sameInst I x then new @ [x] else [x]) b)) ir"

definition eraseFromParent ::
  "Instruction \<Rightarrow> Instruction list list \<Rightarrow> Instruction list list" where
  "eraseFromParent I ir = map (filter (\<lambda>x. \<not> sameInst I x)) ir"

text \<open>
  \<^verbatim>\<open>replaceAllUsesWith\<close>: every operand that is the result of the instruction \<open>i\<close>
  becomes \<open>n\<close>.
\<close>

fun substValue :: "ident \<Rightarrow> Value \<Rightarrow> Value \<Rightarrow> Value" where
  "substValue i n (InstRef j ty) = (if j = i then n else InstRef j ty)"
| "substValue i n (LoadValue j p vt ty) =
     (if j = i then n else LoadValue j (substValue i n p) vt ty)"
| "substValue i n (GetElementPtrInst j p ty) = GetElementPtrInst j (substValue i n p) ty"
| "substValue i n (CreatePointerCast v ty) = CreatePointerCast (substValue i n v) ty"
| "substValue i n (CreateIntCast v ty isSigned) = CreateIntCast (substValue i n v) ty isSigned"
| "substValue i n (CreateBitOrPointerCast v ty) =
     CreateBitOrPointerCast (substValue i n v) ty"
| "substValue i n (CreateIntToPtr v ty) = CreateIntToPtr (substValue i n v) ty"
| "substValue i n (CreateExtractElement v ix) =
     CreateExtractElement (substValue i n v) (substValue i n ix)"
| "substValue i n (CreateICmpEQ a b) = CreateICmpEQ (substValue i n a) (substValue i n b)"
| "substValue i n (CreateInsertValue agg v ix) =
     CreateInsertValue (substValue i n agg) (substValue i n v) ix"
| "substValue i n v = v"

fun substInst :: "ident \<Rightarrow> Value \<Rightarrow> Instruction \<Rightarrow> Instruction" where
  "substInst i n (LoadInst j p ord sc al vt) = LoadInst j (substValue i n p) ord sc al vt"
| "substInst i n (StoreInst j v p ord sc al vt) =
     StoreInst j (substValue i n v) (substValue i n p) ord sc al vt"
| "substInst i n (AtomicRMWInst j op p v ord) =
     AtomicRMWInst j op (substValue i n p) (substValue i n v) ord"
| "substInst i n (AtomicCmpXchgInst j p c v so fo) =
     AtomicCmpXchgInst j (substValue i n p) (substValue i n c) (substValue i n v) so fo"
| "substInst i n (MemIntrinsic j k a0 a1 a2) =
     MemIntrinsic j k (substValue i n a0) (substValue i n a1) (substValue i n a2)"
| "substInst i n (CallInst io f args) = CallInst io f (map (substValue i n) args)"
| "substInst i n (InvokeInst io f args) = InvokeInst io f (map (substValue i n) args)"
| "substInst i n I = I"

definition replaceAllUsesWithin ::
  "Instruction \<Rightarrow> Value option \<Rightarrow> Instruction list \<Rightarrow> Instruction list" where
  "replaceAllUsesWithin I r xs =
     (case (iid I, r) of (Some i, Some n) \<Rightarrow> map (substInst i n) xs | _ \<Rightarrow> xs)"

definition replaceAllUsesWith ::
  "Instruction \<Rightarrow> Value option \<Rightarrow> Instruction list list \<Rightarrow> Instruction list list" where
  "replaceAllUsesWith I r ir = map (replaceAllUsesWithin I r) ir"

text \<open>
  What lowering one instruction \<open>I\<close> does to the function: the instructions created by
  the builder positioned at \<open>I\<close>, the value that replaces the uses of \<open>I\<close>, and whether
  \<open>I\<close> is erased. \<^verbatim>\<open>ReplaceInstWithInst(I, C)\<close> is all three: \<open>C\<close> is put before \<open>I\<close>,
  the uses of \<open>I\<close> become \<open>C\<close>, and \<open>I\<close> is erased.
\<close>

record Edit =
  created :: "Instruction list"
  usesReplacedBy :: "Value option"
  erased :: bool

definition no_edit :: Edit where
  "no_edit = \<lparr>created = [], usesReplacedBy = None, erased = False\<rparr>"

definition applyEdit ::
  "Instruction \<Rightarrow> Edit \<Rightarrow> Instruction list list \<Rightarrow> Instruction list list" where
  "applyEdit I e ir =
     (let ir1 = insertBefore I (created e) ir;
          ir2 = replaceAllUsesWith I (usesReplacedBy e) ir1
      in if erased e then eraseFromParent I ir2 else ir2)"

section \<open>Access lowering\<close>

text \<open>
  \<^verbatim>\<open>instrumentLoadOrStore\<close>. The result is the returned flag, the probe call created
  (by a builder positioned at \<open>I\<close>, so it comes right before \<open>I\<close>), and the counters. The
  casts of the arguments stay inside the argument.
\<close>

definition instrumentLoadOrStore ::
  "Env \<Rightarrow> Instruction \<Rightarrow> Stats \<Rightarrow> Error + (bool \<times> Instruction list \<times> Stats)" where
  "instrumentLoadOrStore env I st =
     (let IsWrite = isaStoreInst I;
          Addr = getPointerOperand I in
      if isSwiftError env Addr then Inr (False, [], st)
      else
        case getMemoryAccessFuncIndex env Addr st of
          Inl e \<Rightarrow> Inl e
        | Inr (Idx, st1) \<Rightarrow>
            if Idx < 0 then Inr (False, [], st1)
            else if IsWrite \<and> isVtableAccess I then
              let StoredValue0 = getValueOperand I;
                  StoredValue1 =
                    (if isVectorTy (getType StoredValue0)
                     then CreateExtractElement StoredValue0 (ConstantInt 32 0)
                     else StoredValue0);
                  StoredValue =
                    (if isIntegerTy (getType StoredValue1)
                     then CreateIntToPtr StoredValue1 getInt8PtrTy
                     else StoredValue1)
              in Inr (True,
                      [CallInst None TsanVptrUpdate
                         [CreatePointerCast Addr getInt8PtrTy,
                          CreatePointerCast StoredValue getInt8PtrTy,
                          CreateIntCast (getLineNumber env I) getInt8Ty False,
                          getObjectName env Addr I,
                          getFileName env I]],
                      st1\<lparr>NumInstrumentedVtableWrites := NumInstrumentedVtableWrites st1 + 1\<rparr>)
            else if \<not> IsWrite \<and> isVtableAccess I then
              Inr (True,
                   [CallInst None TsanVptrLoad
                      [CreatePointerCast Addr getInt8PtrTy,
                       CreateIntCast (getLineNumber env I) getInt8Ty False,
                       getObjectName env Addr I,
                       getFileName env I]],
                   st1\<lparr>NumInstrumentedVtableReads := NumInstrumentedVtableReads st1 + 1\<rparr>)
            else
              let Alignment = getAlignment I;
                  OrigTy = getElementType (getType Addr);
                  TypeSize = getTypeStoreSizeInBits env OrigTy mod 2 ^ 32;
                  OnAccessFunc =
                    (if Alignment = 0 \<or> Alignment \<ge> 8 \<or> Alignment mod (TypeSize div 8) = 0
                     then (if IsWrite then TsanWrite (nat Idx) else TsanRead (nat Idx))
                     else (if IsWrite then TsanUnalignedWrite (nat Idx)
                           else TsanUnalignedRead (nat Idx)))
              in Inr (True,
                      [CallInst None OnAccessFunc
                         [CreatePointerCast Addr getInt8PtrTy,
                          CreateIntCast (getLineNumber env I) getInt8Ty False,
                          getObjectName env Addr I,
                          getFileName env I]],
                      (if IsWrite
                       then st1\<lparr>NumInstrumentedWrites := NumInstrumentedWrites st1 + 1\<rparr>
                       else st1\<lparr>NumInstrumentedReads := NumInstrumentedReads st1 + 1\<rparr>)))"

section \<open>The state of the pass\<close>

text \<open>
  The state of one run of \<^verbatim>\<open>runOnFunction\<close>: the blocks of the function as they stand,
  the four work lists, the two flags and the counters.
\<close>

record PassState =
  IR :: "Instruction list list"
  AllLoadsAndStores :: "Instruction list"
  LocalLoadsAndStores :: "Instruction list"
  AtomicAccesses :: "Instruction list"
  MemIntrinCalls :: "Instruction list"
  HasCalls :: bool
  Res :: bool
  stats :: Stats

section \<open>The local redundancy filter\<close>

fun isaAllocaInst :: "Value \<Rightarrow> bool" where
  "isaAllocaInst (AllocaInst i ty) = True"
| "isaAllocaInst v = False"

definition printVariablesCall :: "Env \<Rightarrow> nat \<Rightarrow> Value \<Rightarrow> Instruction \<Rightarrow> Instruction" where
  "printVariablesCall env n Addr I =
     CallInst None TsanPrintVariables
       [getInt32 n,
        CreatePointerCast Addr getInt8PtrTy,
        CreateIntCast (getLineNumber env I) getInt8Ty False,
        getObjectName env Addr I]"

text \<open>
  \<^verbatim>\<open>PointerMayBeCaptured(Addr, true, true)\<close> is asked of the function as it stands when the
  question is put. The analysis follows the uses of the pointer through its casts, and a
  use as an argument of a call captures the pointer unless the callee declares that
  parameter \<^verbatim>\<open>nocapture\<close>. \<^verbatim>\<open>initializeCallbacks\<close> declares \<^verbatim>\<open>__tsan_print_variables\<close> with
  no attribute and every other callback with \<^verbatim>\<open>NoUnwind\<close> alone, so a pointer, or a pointer
  cast of it, passed to a call of one of them is captured. The calls of other functions
  are among the uses the function had before the pass.
\<close>

fun declaredByPass :: "Callee \<Rightarrow> bool" where
  "declaredByPass (OtherFn nm nounwind) = False"
| "declaredByPass f = True"

fun isPointerOrCastOf :: "Value \<Rightarrow> Value \<Rightarrow> bool" where
  "isPointerOrCastOf Addr (CreatePointerCast v ty) = (v = Addr \<or> CreatePointerCast v ty = Addr)"
| "isPointerOrCastOf Addr a = (a = Addr)"

fun passesPointer :: "Value \<Rightarrow> Instruction \<Rightarrow> bool" where
  "passesPointer Addr (CallInst io f args) =
     (declaredByPass f \<and> list_ex (isPointerOrCastOf Addr) args)"
| "passesPointer Addr (InvokeInst io f args) =
     (declaredByPass f \<and> list_ex (isPointerOrCastOf Addr) args)"
| "passesPointer Addr I = False"

definition PointerMayBeCaptured :: "Env \<Rightarrow> Value \<Rightarrow> Instruction list list \<Rightarrow> bool" where
  "PointerMayBeCaptured env Addr ir =
     (CapturedByOtherUses env Addr \<or> list_ex (passesPointer Addr) (concat ir))"

text \<open>
  The end of the loop body of \<^verbatim>\<open>chooseInstructionsToInstrument\<close>, which loads and stores
  share: the test for a stack slot that is not captured, and \<^verbatim>\<open>All.push_back(I)\<close>. The
  state holds the function with the call of \<^verbatim>\<open>__tsan_print_variables\<close> the loop body has
  just created before \<open>I\<close>.
\<close>

fun chooseTail ::
  "Env \<Rightarrow> Instruction \<Rightarrow> Value \<Rightarrow> Value set \<times> PassState \<Rightarrow> Value set \<times> PassState" where
  "chooseTail env I Addr (WriteTargets, s) =
     (if isaAllocaInst (GetUnderlyingObject env Addr)
         \<and> \<not> PointerMayBeCaptured env Addr (IR s)
      then (WriteTargets,
            s\<lparr>stats := (stats s)\<lparr>NumOmittedNonCaptured :=
                                     NumOmittedNonCaptured (stats s) + 1\<rparr>\<rparr>)
      else (WriteTargets, s\<lparr>AllLoadsAndStores := AllLoadsAndStores s @ [I]\<rparr>))"

text \<open>
  One iteration of the loop. \<open>Local\<close> holds loads and stores only, so the branch that is
  not a store is a load.
\<close>

fun chooseStep ::
  "Env \<Rightarrow> Instruction \<Rightarrow> Value set \<times> PassState \<Rightarrow> Value set \<times> PassState" where
  "chooseStep env I (WriteTargets, s) =
     (let Addr = getPointerOperand I in
      if isaStoreInst I then
        let s1 = s\<lparr>IR := insertBefore I [printVariablesCall env 391 Addr I] (IR s)\<rparr> in
        if \<not> shouldInstrumentReadWriteFromAddress env Addr then (WriteTargets, s1)
        else chooseTail env I Addr (insert Addr WriteTargets, s1)
      else
        let s1 = s\<lparr>IR := insertBefore I [printVariablesCall env 403 Addr I] (IR s)\<rparr> in
        if \<not> shouldInstrumentReadWriteFromAddress env Addr then (WriteTargets, s1)
        else if Addr \<in> WriteTargets then
          (WriteTargets,
           s1\<lparr>stats := (stats s1)\<lparr>NumOmittedReadsBeforeWrite :=
                                      NumOmittedReadsBeforeWrite (stats s1) + 1\<rparr>\<rparr>)
        else
          let (constant, st) = addrPointsToConstantData Addr (stats s1) in
          if constant then (WriteTargets, s1\<lparr>stats := st\<rparr>)
          else chooseTail env I Addr (WriteTargets, s1\<lparr>stats := st\<rparr>))"

text \<open>
  The loop over \<^verbatim>\<open>reverse(Local)\<close>, starting from the empty write set, and the whole
  function, which forgets the write set and clears \<open>Local\<close>.
\<close>

definition chooseLoop :: "Env \<Rightarrow> Instruction list \<Rightarrow> PassState \<Rightarrow> Value set \<times> PassState" where
  "chooseLoop env Local s = fold (chooseStep env) (rev Local) ({}, s)"

definition chooseInstructionsToInstrument :: "Env \<Rightarrow> PassState \<Rightarrow> PassState" where
  "chooseInstructionsToInstrument env s =
     (snd (chooseLoop env (LocalLoadsAndStores s) s))\<lparr>LocalLoadsAndStores := []\<rparr>"

section \<open>Bulk-memory lowering\<close>

text \<open>
  \<^verbatim>\<open>instrumentMemIntrinsic\<close>: the flag it returns, which is always false, and the edit:
  the call of the library function is created before \<open>I\<close> and \<open>I\<close> is erased.
\<close>

fun instrumentMemIntrinsic :: "Env \<Rightarrow> Instruction \<Rightarrow> bool \<times> Edit" where
  "instrumentMemIntrinsic env (MemIntrinsic i MemSet a0 a1 a2) =
     (False,
      \<lparr>created =
         [CallInst None MemsetFn
            [CreatePointerCast a0 getInt8PtrTy,
             CreateIntCast a1 getInt32Ty False,
             CreateIntCast a2 (IntptrTy env) False]],
       usesReplacedBy = None, erased = True\<rparr>)"
| "instrumentMemIntrinsic env (MemIntrinsic i k a0 a1 a2) =
     (False,
      \<lparr>created =
         [CallInst None (if k = MemCpy then MemcpyFn else MemmoveFn)
            [CreatePointerCast a0 getInt8PtrTy,
             CreatePointerCast a1 getInt8PtrTy,
             CreateIntCast a2 (IntptrTy env) False]],
       usesReplacedBy = None, erased = True\<rparr>)"
| "instrumentMemIntrinsic env I = (False, no_edit)"

section \<open>Atomic lowering\<close>

text \<open>
  \<^verbatim>\<open>instrumentAtomic\<close>: the flag, the edit and the counters. An atomic load stays in
  the function; the other atomic instructions are erased, by \<^verbatim>\<open>ReplaceInstWithInst\<close> or,
  for the compare-exchange, by \<^verbatim>\<open>eraseFromParent\<close>.
\<close>

fun instrumentAtomic ::
  "Env \<Rightarrow> Instruction \<Rightarrow> Stats \<Rightarrow> Error + (bool \<times> Edit \<times> Stats)" where
  "instrumentAtomic env (LoadInst i Addr ord sc al vt) st =
     (case getMemoryAccessFuncIndex env Addr st of
        Inl e \<Rightarrow> Inl e
      | Inr (Idx, st1) \<Rightarrow>
          if Idx < 0 then Inr (False, no_edit, st1)
          else
            let Ty = getIntNTy (BitSize (nat Idx));
                PtrTy = getPointerTo Ty
            in (case createOrdering ord of
                 Inl e \<Rightarrow> Inl e
               | Inr ordv \<Rightarrow>
                   let Args = [CreatePointerCast Addr PtrTy, ordv];
                       OrigTy = getElementType (getType Addr);
                       C = ProbeResult i Ty;
                       Cast = CreateBitOrPointerCast C OrigTy
                   in Inr (True,
                           \<lparr>created = [CallInst None (TsanAtomicLoad (nat Idx)) Args],
                            usesReplacedBy = Some Cast, erased = False\<rparr>,
                           st1)))"
| "instrumentAtomic env (StoreInst i v Addr ord sc al vt) st =
     (case getMemoryAccessFuncIndex env Addr st of
        Inl e \<Rightarrow> Inl e
      | Inr (Idx, st1) \<Rightarrow>
          if Idx < 0 then Inr (False, no_edit, st1)
          else
            let Ty = getIntNTy (BitSize (nat Idx));
                PtrTy = getPointerTo Ty
            in (case createOrdering ord of
                 Inl e \<Rightarrow> Inl e
               | Inr ordv \<Rightarrow>
                   let Args = [CreatePointerCast Addr PtrTy,
                               CreateBitOrPointerCast v Ty,
                               ordv]
                   in Inr (True,
                           \<lparr>created = [CallInst None (TsanAtomicStore (nat Idx)) Args],
                            usesReplacedBy = Some (ProbeResult i VoidTy), erased = True\<rparr>,
                           st1)))"
| "instrumentAtomic env (AtomicRMWInst i op Addr v ord) st =
     (case getMemoryAccessFuncIndex env Addr st of
        Inl e \<Rightarrow> Inl e
      | Inr (Idx, st1) \<Rightarrow>
          if Idx < 0 then Inr (False, no_edit, st1)
          else
            (case TsanAtomicRMW op (nat Idx) of
              None \<Rightarrow> Inr (False, no_edit, st1)
            | Some F \<Rightarrow>
                let Ty = getIntNTy (BitSize (nat Idx));
                    PtrTy = getPointerTo Ty
                in (case createOrdering ord of
                     Inl e \<Rightarrow> Inl e
                   | Inr ordv \<Rightarrow>
                       let Args = [CreatePointerCast Addr PtrTy,
                                   CreateIntCast v Ty False,
                                   ordv]
                       in Inr (True,
                               \<lparr>created = [CallInst None F Args],
                                usesReplacedBy = Some (ProbeResult i Ty), erased = True\<rparr>,
                               st1))))"
| "instrumentAtomic env (AtomicCmpXchgInst i Addr cmp newval so fo) st =
     (case getMemoryAccessFuncIndex env Addr st of
        Inl e \<Rightarrow> Inl e
      | Inr (Idx, st1) \<Rightarrow>
          if Idx < 0 then Inr (False, no_edit, st1)
          else
            let Ty = getIntNTy (BitSize (nat Idx));
                PtrTy = getPointerTo Ty;
                CmpOperand = CreateBitOrPointerCast cmp Ty;
                NewOperand = CreateBitOrPointerCast newval Ty
            in (case createOrdering so of
                 Inl e \<Rightarrow> Inl e
               | Inr successOrdering \<Rightarrow>
                   (case createOrdering fo of
                     Inl e \<Rightarrow> Inl e
                   | Inr failureOrdering \<Rightarrow>
                       let Args = [CreatePointerCast Addr PtrTy, CmpOperand, NewOperand,
                                   successOrdering, failureOrdering];
                           C = ProbeResult i Ty;
                           Success = CreateICmpEQ C CmpOperand;
                           OrigOldValTy = getType newval;
                           OldVal = (if Ty \<noteq> OrigOldValTy then CreateIntToPtr C OrigOldValTy
                                     else C);
                           Res0 = CreateInsertValue
                                    (UndefValue (StructTy [getType cmp, IntegerTy 1])) OldVal 0;
                           Res1 = CreateInsertValue Res0 Success 1
                       in Inr (True,
                               \<lparr>created = [CallInst None (TsanAtomicCAS (nat Idx)) Args],
                                usesReplacedBy = Some Res1, erased = True\<rparr>,
                               st1))))"
| "instrumentAtomic env (FenceInst i ord sc) st =
     (case createOrdering ord of
        Inl e \<Rightarrow> Inl e
      | Inr ordv \<Rightarrow>
          let Args = [ordv];
              F = (if sc = SingleThread then TsanAtomicSignalFence else TsanAtomicThreadFence)
          in Inr (True,
                  \<lparr>created = [CallInst None F Args],
                   usesReplacedBy = Some (ProbeResult i VoidTy), erased = True\<rparr>,
                  st))"
| "instrumentAtomic env I st = Inr (True, no_edit, st)"

section \<open>The pass over one function\<close>

fun isAtomic :: "Instruction \<Rightarrow> bool" where
  "isAtomic (LoadInst i p ord sc al vt) = (ord \<noteq> NotAtomic \<and> sc = CrossThread)"
| "isAtomic (StoreInst i v p ord sc al vt) = (ord \<noteq> NotAtomic \<and> sc = CrossThread)"
| "isAtomic (AtomicRMWInst i op p v ord) = True"
| "isAtomic (AtomicCmpXchgInst i p c n so fo) = True"
| "isAtomic (FenceInst i ord sc) = True"
| "isAtomic I = False"

text \<open>A memory intrinsic is a call instruction of its own class.\<close>

fun isaMemIntrinsic :: "Instruction \<Rightarrow> bool" where
  "isaMemIntrinsic (MemIntrinsic i k a0 a1 a2) = True"
| "isaMemIntrinsic I = False"

fun isaCallInst :: "Instruction \<Rightarrow> bool" where
  "isaCallInst (CallInst io f args) = True"
| "isaCallInst (MemIntrinsic i k a0 a1 a2) = True"
| "isaCallInst I = False"

fun isaInvokeInst :: "Instruction \<Rightarrow> bool" where
  "isaInvokeInst (InvokeInst io f args) = True"
| "isaInvokeInst I = False"

text \<open>
  The body of the loop that traverses the instructions. The call of
  \<^verbatim>\<open>maybeMarkSanitizerLibraryCallNoBuiltin\<close> sets an attribute of the call that the
  model does not keep.
\<close>

definition visitInst :: "Env \<Rightarrow> Instruction \<Rightarrow> PassState \<Rightarrow> PassState" where
  "visitInst env Inst s =
     (if isAtomic Inst then s\<lparr>AtomicAccesses := AtomicAccesses s @ [Inst]\<rparr>
      else if isaLoadInst Inst \<or> isaStoreInst Inst
      then s\<lparr>LocalLoadsAndStores := LocalLoadsAndStores s @ [Inst]\<rparr>
      else if isaCallInst Inst \<or> isaInvokeInst Inst then
        let s1 = (if isaCallInst Inst
                  then s\<lparr>IR := InstrIfSynchronization env Inst (IR s)\<rparr> else s);
            s2 = (if isaMemIntrinsic Inst
                  then s1\<lparr>MemIntrinCalls := MemIntrinCalls s1 @ [Inst]\<rparr> else s1);
            s3 = s2\<lparr>HasCalls := True\<rparr>
        in chooseInstructionsToInstrument env s3
      else s)"

definition visitBlock :: "Env \<Rightarrow> Instruction list \<Rightarrow> PassState \<Rightarrow> PassState" where
  "visitBlock env BB s = chooseInstructionsToInstrument env (fold (visitInst env) BB s)"

definition collect :: "Env \<Rightarrow> Function \<Rightarrow> Stats \<Rightarrow> PassState" where
  "collect env F st =
     fold (visitBlock env) (blocks F)
       \<lparr>IR = blocks F, AllLoadsAndStores = [], LocalLoadsAndStores = [],
        AtomicAccesses = [], MemIntrinCalls = [], HasCalls = False, Res = False,
        stats = st\<rparr>"

text \<open>The three lowering loops, \<^verbatim>\<open>Res |= ...\<close> for each instruction of a work list.\<close>

fun lowerLoadsAndStores ::
  "Env \<Rightarrow> Instruction list \<Rightarrow> PassState \<Rightarrow> Error + PassState" where
  "lowerLoadsAndStores env [] s = Inr s"
| "lowerLoadsAndStores env (Inst # rest) s =
     (case instrumentLoadOrStore env Inst (stats s) of
        Inl e \<Rightarrow> Inl e
      | Inr (r, new, st) \<Rightarrow>
          lowerLoadsAndStores env rest
            (s\<lparr>IR := insertBefore Inst new (IR s), Res := (Res s \<or> r), stats := st\<rparr>))"

text \<open>
  The instructions of the work lists are the instructions of the function: replacing
  the uses of a lowered atomic changes the operands of those still waiting as well.
\<close>

function lowerAtomics :: "Env \<Rightarrow> Instruction list \<Rightarrow> PassState \<Rightarrow> Error + PassState" where
  "lowerAtomics env [] s = Inr s"
| "lowerAtomics env (Inst # rest) s =
     (case instrumentAtomic env Inst (stats s) of
        Inl e \<Rightarrow> Inl e
      | Inr (r, edit, st) \<Rightarrow>
          lowerAtomics env (replaceAllUsesWithin Inst (usesReplacedBy edit) rest)
            (s\<lparr>IR := applyEdit Inst edit (IR s),
               MemIntrinCalls :=
                 replaceAllUsesWithin Inst (usesReplacedBy edit) (MemIntrinCalls s),
               Res := (Res s \<or> r), stats := st\<rparr>))"
  by pat_completeness auto
termination
  by (relation "measure (\<lambda>(env, xs, s). length xs)")
     (auto simp: replaceAllUsesWithin_def split: option.splits)

fun lowerMemIntrinsics :: "Env \<Rightarrow> Instruction list \<Rightarrow> PassState \<Rightarrow> PassState" where
  "lowerMemIntrinsics env [] s = s"
| "lowerMemIntrinsics env (Inst # rest) s =
     (case instrumentMemIntrinsic env Inst of
        (r, edit) \<Rightarrow>
          lowerMemIntrinsics env rest
            (s\<lparr>IR := applyEdit Inst edit (IR s), Res := (Res s \<or> r)\<rparr>))"

section \<open>Entry, exit and the ignore bracket\<close>

fun isaPHINode :: "Instruction \<Rightarrow> bool" where
  "isaPHINode PHINode = True"
| "isaPHINode I = False"

text \<open>
  A builder positioned at \<^verbatim>\<open>F.getEntryBlock().getFirstNonPHI()\<close>: the new instructions
  come after the PHI nodes of the first block.
\<close>

fun insertAtEntry :: "Instruction list \<Rightarrow> Instruction list list \<Rightarrow> Instruction list list" where
  "insertAtEntry new [] = []"
| "insertAtEntry new (b # bs) = (takeWhile isaPHINode b @ new @ dropWhile isaPHINode b) # bs"

text \<open>
  LLVM's \<^verbatim>\<open>EscapeEnumerator\<close> together with the loop that creates one call at every
  position it yields. It first yields the terminator of every block that ends in a
  return or a resume. Then, when exceptions are handled, the function may throw and
  some call instruction may throw, it makes a cleanup block (a landing pad and a resume),
  turns every call that may throw into an invoke that unwinds to it, which splits the
  block after the call, and yields the resume of the cleanup block.
\<close>

fun isEscape :: "Instruction \<Rightarrow> bool" where
  "isEscape ReturnInst = True"
| "isEscape ResumeInst = True"
| "isEscape I = False"

definition atExit :: "Instruction \<Rightarrow> Instruction list \<Rightarrow> Instruction list" where
  "atExit probe b =
     (if b \<noteq> [] \<and> isEscape (last b) then butlast b @ [probe, last b] else b)"

fun mayThrowCall :: "Instruction \<Rightarrow> bool" where
  "mayThrowCall (CallInst io f args) = (\<not> calleeDoesNotThrow f)"
| "mayThrowCall I = False"

fun changeToInvoke :: "Instruction \<Rightarrow> Instruction" where
  "changeToInvoke (CallInst io f args) = InvokeInst io f args"
| "changeToInvoke I = I"

fun splitAtCalls :: "Instruction list \<Rightarrow> Instruction list list" where
  "splitAtCalls [] = [[]]"
| "splitAtCalls (x # xs) =
     (if mayThrowCall x then [changeToInvoke x] # splitAtCalls xs
      else (case splitAtCalls xs of [] \<Rightarrow> [[x]] | b # bs \<Rightarrow> (x # b) # bs))"

definition EscapeEnumerator ::
  "bool \<Rightarrow> bool \<Rightarrow> Instruction \<Rightarrow> Instruction list list \<Rightarrow> Instruction list list" where
  "EscapeEnumerator HandleExceptions nothrow probe ir =
     (let ir1 = map (atExit probe) ir in
      if \<not> HandleExceptions then ir1
      else if nothrow then ir1
      else if \<not> list_ex mayThrowCall (concat ir1) then ir1
      else concat (map splitAtCalls ir1) @ [[LandingPadInst, probe, ResumeInst]])"

definition InsertRuntimeIgnores :: "Options \<Rightarrow> Function \<Rightarrow> PassState \<Rightarrow> PassState" where
  "InsertRuntimeIgnores opts F s =
     s\<lparr>IR := EscapeEnumerator (ClHandleCxxExceptions opts) (doesNotThrow F)
                (CallInst None TsanIgnoreEnd [])
                (insertAtEntry [CallInst None TsanIgnoreBegin []] (IR s))\<rparr>"

definition instrumentEntryExit ::
  "Env \<Rightarrow> Options \<Rightarrow> Function \<Rightarrow> PassState \<Rightarrow> PassState" where
  "instrumentEntryExit env opts F s =
     (let func_name = getFuncName env F;
          ir1 = insertAtEntry
                  [CallInst None TsanFuncEntry [CreatePointerCast func_name getInt8PtrTy]]
                  (IR s);
          ir2 = EscapeEnumerator (ClHandleCxxExceptions opts) (doesNotThrow F)
                  (CallInst None TsanFuncExit [CreatePointerCast func_name getInt8PtrTy]) ir1;
          ir3 = (if getFuncNameStr env F = ''main''
                 then EscapeEnumerator (ClHandleCxxExceptions opts) (doesNotThrow F)
                        (CallInst None TsanMainFuncExit
                           [CreatePointerCast func_name getInt8PtrTy]) ir2
                 else ir2)
      in s\<lparr>IR := ir3, Res := True\<rparr>)"

text \<open>
  \<^verbatim>\<open>runOnFunction\<close>: the function as rewritten, the flag returned and the counters. The
  \<^verbatim>\<open>assert\<close> on a function that is both race-checked and suppressed is the error
  \<open>AssertionFailed\<close>.
\<close>

definition runOnFunction ::
  "Env \<Rightarrow> Options \<Rightarrow> Function \<Rightarrow> Stats \<Rightarrow> Error + (Function \<times> bool \<times> Stats)" where
  "runOnFunction env opts F st =
     (if isTsanCtorFunction F then Inr (F, False, st)
      else
        let s0 = collect env F st;
            SanitizeFunction = SanitizeThread F
        in
        case (if ClInstrumentMemoryAccesses opts \<and> SanitizeFunction
              then lowerLoadsAndStores env (AllLoadsAndStores s0) s0 else Inr s0) of
          Inl e \<Rightarrow> Inl e
        | Inr s1 \<Rightarrow>
        (case (if ClInstrumentAtomics opts
               then lowerAtomics env (AtomicAccesses s1) s1 else Inr s1) of
           Inl e \<Rightarrow> Inl e
         | Inr s2 \<Rightarrow>
         let s3 = (if ClInstrumentMemIntrinsics opts \<and> SanitizeFunction
                   then lowerMemIntrinsics env (MemIntrinCalls s2) s2 else s2)
         in
         (case (if NoCheckingAtRunTime F
                then (if SanitizeThread F then Inl AssertionFailed
                      else Inr (if HasCalls s3 then InsertRuntimeIgnores opts F s3 else s3))
                else Inr s3) of
            Inl e \<Rightarrow> Inl e
          | Inr s4 \<Rightarrow>
          let s5 = (if (Res s4 \<or> HasCalls s4) \<and> ClInstrumentFuncEntryExit opts
                    then instrumentEntryExit env opts F s4 else s4)
          in Inr (F\<lparr>blocks := IR s5\<rparr>, Res s5, stats s5))))"

section \<open>Run-time values of the operands the pass builds\<close>

text \<open>
  The meaning of the builder's casts, comparison and aggregate operations, following the
  LLVM language reference: an integer cast truncates or extends to the width of the
  target type, a pointer-to-integer cast truncates or zero-extends the address, an
  integer-to-pointer cast keeps the address modulo the pointer size. \<open>rho\<close> gives the
  values of the operands the pass did not build.
\<close>

datatype RtValue = IntV nat nat | PtrV nat | AggV "RtValue list" | UndefV

definition intCast :: "bool \<Rightarrow> nat \<Rightarrow> nat \<Rightarrow> nat \<Rightarrow> nat" where
  "intCast isSigned w x n =
     (if isSigned \<and> w < n \<and> 0 < w \<and> 2 ^ (w - 1) \<le> x then x + 2 ^ n - 2 ^ w else x mod 2 ^ n)"

fun eval :: "Env \<Rightarrow> (Value \<Rightarrow> RtValue) \<Rightarrow> Value \<Rightarrow> RtValue" where
  "eval env rho (ConstantInt w x) = IntV w x"
| "eval env rho (UndefValue ty) =
     (case ty of StructTy ts \<Rightarrow> AggV (map (\<lambda>t. UndefV) ts) | _ \<Rightarrow> UndefV)"
| "eval env rho (CreateIntCast v ty isSigned) =
     (case (eval env rho v, ty) of
        (IntV w x, IntegerTy n) \<Rightarrow> IntV n (intCast isSigned w x n)
      | _ \<Rightarrow> UndefV)"
| "eval env rho (CreatePointerCast v ty) =
     (case (eval env rho v, ty) of
        (PtrV a, PointerTy t s) \<Rightarrow> PtrV a
      | (PtrV a, IntegerTy n) \<Rightarrow> IntV n (a mod 2 ^ n)
      | _ \<Rightarrow> UndefV)"
| "eval env rho (CreateBitOrPointerCast v ty) =
     (if getType v = ty then eval env rho v
      else
        case (eval env rho v, ty) of
          (PtrV a, IntegerTy n) \<Rightarrow> IntV n (a mod 2 ^ n)
        | (IntV w x, PointerTy t s) \<Rightarrow> PtrV (x mod 2 ^ getPointerSizeInBits env s)
        | (r, _) \<Rightarrow> r)"
| "eval env rho (CreateIntToPtr v ty) =
     (case (eval env rho v, ty) of
        (IntV w x, PointerTy t s) \<Rightarrow> PtrV (x mod 2 ^ getPointerSizeInBits env s)
      | _ \<Rightarrow> UndefV)"
| "eval env rho (CreateExtractElement v ix) =
     (case (eval env rho v, eval env rho ix) of
        (AggV xs, IntV w i) \<Rightarrow> if i < length xs then xs ! i else UndefV
      | _ \<Rightarrow> UndefV)"
| "eval env rho (CreateICmpEQ a b) =
     (case (eval env rho a, eval env rho b) of
        (IntV w x, IntV w' y) \<Rightarrow> if w = w' then IntV 1 (if x = y then 1 else 0) else UndefV
      | (PtrV x, PtrV y) \<Rightarrow> IntV 1 (if x = y then 1 else 0)
      | _ \<Rightarrow> UndefV)"
| "eval env rho (CreateInsertValue agg v ix) =
     (case eval env rho agg of
        AggV xs \<Rightarrow> if ix < length xs then AggV (xs[ix := eval env rho v]) else UndefV
      | _ \<Rightarrow> UndefV)"
| "eval env rho v = rho v"

section \<open>A sample target, for evaluating the model on concrete inputs\<close>

fun stripGEPs :: "Value \<Rightarrow> Value" where
  "stripGEPs (GetElementPtrInst i p ty) = stripGEPs p"
| "stripGEPs v = v"

definition sample_env :: Env where
  "sample_env =
     \<lparr>stripInBoundsOffsets = stripGEPs,
      GetUnderlyingObject = stripGEPs,
      CapturedByOtherUses = (\<lambda>v. True),
      isSwiftError = (\<lambda>v. False),
      getTypeStoreSizeInBits =
        (\<lambda>ty. case ty of IntegerTy n \<Rightarrow> 8 * ((n + 7) div 8) | PointerTy t a \<Rightarrow> 32 | _ \<Rightarrow> 0),
      getPointerSizeInBits = (\<lambda>a. 32),
      IntptrTy = IntegerTy 32,
      getInstrProfCountersSectionName = ''__llvm_prf_cnts'',
      getLineNumber = (\<lambda>I. ConstantInt 32 300),
      getObjectName = (\<lambda>a I. GlobalVariable ''.str.obj'' [] True getInt8PtrTy),
      getFileName = (\<lambda>I. GlobalVariable ''.str.file'' [] True getInt8PtrTy),
      getFuncName = (\<lambda>F. GlobalVariable (name F) [] True getInt8PtrTy),
      getFuncNameStr = name,
      InstrIfSynchronization = (\<lambda>I ir. ir)\<rparr>"

definition no_stats :: Stats where
  "no_stats =
     \<lparr>NumInstrumentedReads = 0, NumInstrumentedWrites = 0, NumOmittedReadsBeforeWrite = 0,
      NumAccessesWithBadSize = 0, NumInstrumentedVtableWrites = 0,
      NumInstrumentedVtableReads = 0, NumOmittedReadsFromConstantGlobals = 0,
      NumOmittedReadsFromVtable = 0, NumOmittedNonCaptured = 0\<rparr>"

section \<open>Notions used to state the properties\<close>

text \<open>
  The size in bits of the access through \<open>Addr\<close>, as the pass computes it: the store size
  of the pointee type of \<open>Addr\<close>, held in a \<^verbatim>\<open>uint32_t\<close>.
\<close>

definition accessTypeSize :: "Env \<Rightarrow> Value \<Rightarrow> nat" where
  "accessTypeSize env Addr =
     getTypeStoreSizeInBits env (getElementType (getType Addr)) mod 2 ^ 32"

text \<open>The size in bits of the access through \<open>Addr\<close> itself, as the data layout gives it.\<close>

definition storeSizeInBits :: "Env \<Rightarrow> Value \<Rightarrow> nat" where
  "storeSizeInBits env Addr = getTypeStoreSizeInBits env (getElementType (getType Addr))"

text \<open>
  The words of the specification: a declared alignment is compatible with the natural
  alignment of an access of \<open>bytes\<close> bytes when it is 0 (natural) or a multiple of
  \<open>bytes\<close>.
\<close>

definition spec_alignment_compatible :: "nat \<Rightarrow> nat \<Rightarrow> bool" where
  "spec_alignment_compatible al bytes = (al = 0 \<or> al mod bytes = 0)"

text \<open>
  The position of the source line among the arguments of a plain-access or
  dispatch-table probe.
\<close>

fun lineParam :: "Callee \<Rightarrow> nat" where
  "lineParam TsanVptrUpdate = 2"
| "lineParam f = 1"

text \<open>The instructions that access memory through a pointer operand.\<close>

fun hasPointerOperand :: "Instruction \<Rightarrow> bool" where
  "hasPointerOperand (LoadInst i p ord sc al vt) = True"
| "hasPointerOperand (StoreInst i v p ord sc al vt) = True"
| "hasPointerOperand (AtomicRMWInst i op p v ord) = True"
| "hasPointerOperand (AtomicCmpXchgInst i p c n so fo) = True"
| "hasPointerOperand I = False"

text \<open>
  The two tests of \<^verbatim>\<open>shouldInstrumentReadWriteFromAddress\<close>, on the address stripped of
  its in-bounds offsets and casts: a global in the section of the profile counters or
  named as coverage data, and a pointer into an address space other than 0.
\<close>

definition reservedCounterRegion :: "Env \<Rightarrow> Value \<Rightarrow> bool" where
  "reservedCounterRegion env Addr =
     (case stripInBoundsOffsets env Addr of
        GlobalVariable nm sec c ty \<Rightarrow>
          (sec \<noteq> [] \<and> endswith sec (getInstrProfCountersSectionName env))
          \<or> startswith nm ''__llvm_gcov'' \<or> startswith nm ''__llvm_gcda''
      | _ \<Rightarrow> False)"

definition nonDefaultAddressSpace :: "Env \<Rightarrow> Value \<Rightarrow> bool" where
  "nonDefaultAddressSpace env Addr =
     (getPointerAddressSpace (getScalarType (getType (stripInBoundsOffsets env Addr))) \<noteq> 0)"

text \<open>
  A counter of the coverage tool, an atomic increment of it, a plain store to it, and a
  race-checked function that holds the atomic increment.
\<close>

definition sample_counter :: Value where
  "sample_counter = GlobalVariable ''__llvm_gcov_ctr'' [] False (PointerTy (IntegerTy 64) 0)"

definition sample_counter_rmw :: Instruction where
  "sample_counter_rmw = AtomicRMWInst 1 Add sample_counter (ConstantInt 64 1) Monotonic"

definition sample_counter_store :: Instruction where
  "sample_counter_store =
     StoreInst 3 (ConstantInt 64 1) sample_counter NotAtomic CrossThread 8 False"

definition sample_counter_function :: Function where
  "sample_counter_function =
     \<lparr>blocks = [[sample_counter_rmw, ReturnInst]], name = ''f'', SanitizeThread = True,
      NoCheckingAtRunTime = False, doesNotThrow = True, isTsanCtorFunction = False\<rparr>"

text \<open>\<^verbatim>\<open>NumAccessesWithBadSize++\<close>.\<close>

definition countBadSize :: "Stats \<Rightarrow> Stats" where
  "countBadSize st = st\<lparr>NumAccessesWithBadSize := NumAccessesWithBadSize st + 1\<rparr>"

text \<open>
  The words of the specification for rule (e) of the address classifier: the underlying
  object is a stack allocation and the pointer is never captured, in the function as the
  pass receives it.
\<close>

definition nonCapturedStack :: "Env \<Rightarrow> Value \<Rightarrow> bool" where
  "nonCapturedStack env Addr =
     (isaAllocaInst (GetUnderlyingObject env Addr) \<and> \<not> CapturedByOtherUses env Addr)"

text \<open>
  Constant data: the address, or the pointer it indexes when it is an address
  computation, is a constant global or the result of a load tagged as a load of a
  dispatch-table pointer.
\<close>

definition pointsToConstantData :: "Value \<Rightarrow> bool" where
  "pointsToConstantData Addr =
     (case (case Addr of GetElementPtrInst i p ty \<Rightarrow> p | _ \<Rightarrow> Addr) of
        GlobalVariable nm sec c ty \<Rightarrow> c
      | LoadValue i p vt ty \<Rightarrow> vt
      | _ \<Rightarrow> False)"

text \<open>
  The call the filter creates before the load or store \<open>I\<close>: the call of
  \<^verbatim>\<open>__tsan_print_variables\<close> with the constant 391 for a store and 403 for a load.
\<close>

definition printFor :: "Env \<Rightarrow> Instruction \<Rightarrow> Instruction" where
  "printFor env I =
     printVariablesCall env (if isaStoreInst I then 391 else 403) (getPointerOperand I) I"

text \<open>The instruction \<open>I\<close> is in the function.\<close>

definition occurs :: "Instruction \<Rightarrow> Instruction list list \<Rightarrow> bool" where
  "occurs I ir = list_ex (sameInst I) (concat ir)"

text \<open>
  What one call of \<^verbatim>\<open>chooseInstructionsToInstrument\<close> leaves behind: the write set at
  the end of its loop, and the instructions it appends to the scheduled list.
\<close>

definition writeSet :: "Env \<Rightarrow> PassState \<Rightarrow> Value set" where
  "writeSet env s = fst (chooseLoop env (LocalLoadsAndStores s) s)"

definition scheduled :: "Env \<Rightarrow> PassState \<Rightarrow> Instruction list" where
  "scheduled env s =
     drop (length (AllLoadsAndStores s))
       (AllLoadsAndStores (chooseInstructionsToInstrument env s))"

text \<open>
  The loop of the filter without the state, for instructions that are in the function:
  whether an instruction met with the write set \<open>W\<close> is scheduled, the addresses a run
  of instructions adds to the write set, and the instructions scheduled from a run
  processed in the order given.
\<close>

definition keep :: "Env \<Rightarrow> Instruction \<Rightarrow> Value set \<Rightarrow> bool" where
  "keep env I W =
     (shouldInstrumentReadWriteFromAddress env (getPointerOperand I)
      \<and> (isaStoreInst I
           \<or> (getPointerOperand I \<notin> W \<and> \<not> pointsToConstantData (getPointerOperand I))))"

definition writes :: "Env \<Rightarrow> Instruction list \<Rightarrow> Value set" where
  "writes env xs =
     getPointerOperand `
       {S \<in> set xs. isaStoreInst S \<and> shouldInstrumentReadWriteFromAddress env (getPointerOperand S)}"

fun sched :: "Env \<Rightarrow> Instruction list \<Rightarrow> Value set \<Rightarrow> Instruction list" where
  "sched env [] W = []"
| "sched env (I # xs) W =
     (if keep env I W then [I] else []) @
     sched env xs
       (if isaStoreInst I \<and> shouldInstrumentReadWriteFromAddress env (getPointerOperand I)
        then insert (getPointerOperand I) W else W)"

text \<open>
  A function to evaluate the filter on: a load of a global, a store to the same global
  after it, a store to a stack slot and the return; a target in which no use the
  function has captures a pointer; the state of the pass when the filter is given the
  three accesses; and the function itself, race-checked.
\<close>

definition sample_stack_env :: Env where
  "sample_stack_env = sample_env\<lparr>CapturedByOtherUses := (\<lambda>v. False)\<rparr>"

definition sample_global :: Value where
  "sample_global = GlobalVariable ''g'' [] False (PointerTy (IntegerTy 32) 0)"

definition sample_slot :: Value where
  "sample_slot = AllocaInst 9 (PointerTy (IntegerTy 32) 0)"

definition sample_load :: Instruction where
  "sample_load = LoadInst 1 sample_global NotAtomic CrossThread 4 False"

definition sample_store :: Instruction where
  "sample_store = StoreInst 2 (ConstantInt 32 7) sample_global NotAtomic CrossThread 4 False"

definition sample_slot_store :: Instruction where
  "sample_slot_store =
     StoreInst 3 (ConstantInt 32 7) sample_slot NotAtomic CrossThread 4 False"

definition sample_segment :: PassState where
  "sample_segment =
     \<lparr>IR = [[sample_load, sample_store, sample_slot_store, ReturnInst]],
      AllLoadsAndStores = [],
      LocalLoadsAndStores = [sample_load, sample_store, sample_slot_store],
      AtomicAccesses = [], MemIntrinCalls = [], HasCalls = False, Res = False,
      stats = no_stats\<rparr>"

definition sample_stack_function :: Function where
  "sample_stack_function =
     \<lparr>blocks = [[sample_load, sample_store, sample_slot_store, ReturnInst]], name = ''f'',
      SanitizeThread = True, NoCheckingAtRunTime = False, doesNotThrow = True,
      isTsanCtorFunction = False\<rparr>"

text \<open>
  Bulk-memory lowering of a whole function: the memory intrinsics the traversal
  collects, in program order, and the loop of \<^verbatim>\<open>runOnFunction\<close> over them.
\<close>

definition lowerBulkMemory :: "Env \<Rightarrow> Instruction list list \<Rightarrow> Instruction list list" where
  "lowerBulkMemory env ir =
     IR (lowerMemIntrinsics env (filter isaMemIntrinsic (concat ir))
           \<lparr>IR = ir, AllLoadsAndStores = [], LocalLoadsAndStores = [], AtomicAccesses = [],
            MemIntrinCalls = filter isaMemIntrinsic (concat ir), HasCalls = True, Res = False,
            stats = no_stats\<rparr>)"

text \<open>No two instructions of the function share an identifier.\<close>

definition uniqueIds :: "Instruction list list \<Rightarrow> bool" where
  "uniqueIds ir =
     (\<forall>x \<in> set (concat ir). \<forall>y \<in> set (concat ir).
        iid x \<noteq> None \<and> iid x = iid y \<longrightarrow> x = y)"

text \<open>
  The words of the specification: the plain call of the corresponding primitive with the
  destination, the source or value, and the length of the intrinsic, each cast to the
  type the primitive declares for it.
\<close>

fun libraryCall :: "Env \<Rightarrow> Instruction \<Rightarrow> Instruction" where
  "libraryCall env (MemIntrinsic i MemSet a0 a1 a2) =
     CallInst None MemsetFn
       [CreatePointerCast a0 getInt8PtrTy, CreateIntCast a1 getInt32Ty False,
        CreateIntCast a2 (IntptrTy env) False]"
| "libraryCall env (MemIntrinsic i MemCpy a0 a1 a2) =
     CallInst None MemcpyFn
       [CreatePointerCast a0 getInt8PtrTy, CreatePointerCast a1 getInt8PtrTy,
        CreateIntCast a2 (IntptrTy env) False]"
| "libraryCall env (MemIntrinsic i MemMove a0 a1 a2) =
     CallInst None MemmoveFn
       [CreatePointerCast a0 getInt8PtrTy, CreatePointerCast a1 getInt8PtrTy,
        CreateIntCast a2 (IntptrTy env) False]"
| "libraryCall env I = I"

text \<open>What lowering the intrinsic \<open>I\<close> makes of an instruction \<open>x\<close> of the function.\<close>

definition lowered :: "Env \<Rightarrow> Instruction \<Rightarrow> Instruction \<Rightarrow> Instruction" where
  "lowered env I x = (if sameInst I x then libraryCall env I else x)"

text \<open>
  The result of a compare-exchange that is not instrumented, after the LLVM language
  reference: the value the location held, and whether it was equal to the expected
  value (a compare-exchange that does not fail spuriously).
\<close>

definition cmpxchgResult :: "RtValue \<Rightarrow> RtValue \<Rightarrow> RtValue" where
  "cmpxchgResult old expected = AggV [old, IntV 1 (if old = expected then 1 else 0)]"

text \<open>
  The contract of the probe \<^verbatim>\<open>__tsan_atomicN_compare_exchange_val\<close>, which belongs to the
  run-time library: it returns the value the location held, as an integer of \<open>N\<close> bits.
\<close>

fun asInteger :: "nat \<Rightarrow> RtValue \<Rightarrow> RtValue" where
  "asInteger N (IntV w x) = IntV N x"
| "asInteger N (PtrV a) = IntV N a"
| "asInteger N v = UndefV"

text \<open>
  A run-time value of the type of the operands of a compare-exchange of \<open>N\<close> bits: an
  integer of \<open>N\<close> bits, or a pointer whose address fits the pointer size, which is at
  most \<open>N\<close>.
\<close>

fun wellTyped :: "Env \<Rightarrow> Type \<Rightarrow> nat \<Rightarrow> RtValue \<Rightarrow> bool" where
  "wellTyped env (IntegerTy n) N (IntV w x) = (n = N \<and> w = N \<and> x < 2 ^ N)"
| "wellTyped env (PointerTy t a) N (PtrV b) =
     (b < 2 ^ getPointerSizeInBits env a \<and> getPointerSizeInBits env a \<le> N)"
| "wellTyped env T N v = False"


text \<open>Run-time values of some operands, to evaluate the lowered compare-exchange on.\<close>

definition sample_rho :: "Value \<Rightarrow> RtValue" where
  "sample_rho v =
     (if v = Argument 1 (PointerTy (IntegerTy 8) 0) then PtrV 4096
      else if v = ProbeResult 5 (IntegerTy 32) then IntV 32 4096
      else if v = ProbeResult 6 (IntegerTy 32) then IntV 32 7
      else UndefV)"

section \<open>Notions used to state the properties of the whole pass\<close>

subsection \<open>Counting and the shape of a function\<close>

text \<open>
  The number of instructions of a function that satisfy \<open>P\<close>; the blocks that leave the
  function, which end in a return or a resume; and their number.
\<close>

definition cnt :: "(Instruction \<Rightarrow> bool) \<Rightarrow> Instruction list list \<Rightarrow> nat" where
  "cnt P ir = length (filter P (concat ir))"

definition isExit :: "Instruction list \<Rightarrow> bool" where
  "isExit b = (b \<noteq> [] \<and> isEscape (last b))"

definition exits :: "Instruction list list \<Rightarrow> nat" where
  "exits ir = length (filter isExit ir)"

text \<open>
  The function holds a call or an invoke, which is what sets \<^verbatim>\<open>HasCalls\<close>; a call of it may
  throw; and the number of cleanup blocks an escape enumerator adds: one when exceptions
  are handled, the function may throw and a call of it may throw, none otherwise.
\<close>

definition hasCall :: "Instruction list list \<Rightarrow> bool" where
  "hasCall ir = list_ex (\<lambda>x. isaCallInst x \<or> isaInvokeInst x) (concat ir)"

definition throwing :: "Instruction list list \<Rightarrow> bool" where
  "throwing ir = list_ex mayThrowCall (concat ir)"

definition cleanupPad :: "bool \<Rightarrow> bool \<Rightarrow> Instruction list list \<Rightarrow> nat" where
  "cleanupPad HandleExceptions nothrow ir =
     (if HandleExceptions \<and> \<not> nothrow \<and> throwing ir then 1 else 0)"

text \<open>
  A list of instructions begins, or ends, with the instructions \<open>ps\<close>. \<open>entrySeq ps\<close>: the
  instructions of the entry block after its phi nodes begin with \<open>ps\<close>. \<open>exitSeq ps\<close>: in
  every block that leaves the function, the instructions before the terminator end with
  \<open>ps\<close>.
\<close>

definition startsIn :: "Instruction list \<Rightarrow> Instruction list \<Rightarrow> bool" where
  "startsIn ps xs = (take (length ps) xs = ps)"

definition endsIn :: "Instruction list \<Rightarrow> Instruction list \<Rightarrow> bool" where
  "endsIn ps xs = (drop (length xs - length ps) xs = ps)"

definition entrySeq :: "Instruction list \<Rightarrow> Instruction list list \<Rightarrow> bool" where
  "entrySeq ps ir = (ir \<noteq> [] \<and> startsIn ps (dropWhile isaPHINode (hd ir)))"

definition exitSeq :: "Instruction list \<Rightarrow> Instruction list list \<Rightarrow> bool" where
  "exitSeq ps ir = list_all (\<lambda>b. isExit b \<longrightarrow> endsIn ps (butlast b)) ir"

subsection \<open>The calls the pass creates\<close>

text \<open>
  The callees of the calls the three lowerings create (every callback but the call of the
  filter, the entry and exit probes and the ignore bracket), a call created by a lowering,
  a call of the callback \<open>f\<close> created by the pass, and a call of \<^verbatim>\<open>__tsan_print_variables\<close>
  created by the pass, which an escape enumerator may have turned into an invoke.
\<close>

fun isLoweringCallee :: "Callee \<Rightarrow> bool" where
  "isLoweringCallee TsanPrintVariables = False"
| "isLoweringCallee TsanFuncEntry = False"
| "isLoweringCallee TsanFuncExit = False"
| "isLoweringCallee TsanMainFuncExit = False"
| "isLoweringCallee TsanIgnoreBegin = False"
| "isLoweringCallee TsanIgnoreEnd = False"
| "isLoweringCallee (OtherFn nm nounwind) = False"
| "isLoweringCallee f = True"

fun loweringCall :: "Instruction \<Rightarrow> bool" where
  "loweringCall (CallInst None f args) = isLoweringCallee f"
| "loweringCall I = False"

fun isProbeCall :: "Callee \<Rightarrow> Instruction \<Rightarrow> bool" where
  "isProbeCall f (CallInst None g args) = (g = f)"
| "isProbeCall f I = False"

fun isPrintProbe :: "Instruction \<Rightarrow> bool" where
  "isPrintProbe (CallInst None f args) = (f = TsanPrintVariables)"
| "isPrintProbe (InvokeInst None f args) = (f = TsanPrintVariables)"
| "isPrintProbe I = False"

text \<open>
  The argument of the entry and exit probes, and the condition under which
  \<^verbatim>\<open>InsertRuntimeIgnores\<close> runs.
\<close>

definition funcNameArg :: "Env \<Rightarrow> Function \<Rightarrow> Value" where
  "funcNameArg env F = CreatePointerCast (getFuncName env F) getInt8PtrTy"

definition ignoresInserted :: "Function \<Rightarrow> Instruction list list \<Rightarrow> bool" where
  "ignoresInserted F ir = (NoCheckingAtRunTime F \<and> hasCall ir)"

text \<open>
  A load or store that is not atomic: the instructions the traversal hands to the filter.
  \<open>distinctIds\<close>: no identifier belongs to two instructions of the function.
\<close>

definition plainAccess :: "Instruction \<Rightarrow> bool" where
  "plainAccess x = (\<not> isAtomic x \<and> (isaLoadInst x \<or> isaStoreInst x))"

definition distinctIds :: "Instruction list list \<Rightarrow> bool" where
  "distinctIds ir = distinct (map iid (filter (\<lambda>x. iid x \<noteq> None) (concat ir)))"

subsection \<open>Invariants of the pass\<close>

text \<open>
  A property \<open>P\<close> of instructions that the edits of the lowerings keep: it holds of
  instructions the pass creates only, does not depend on operands that are replaced, is
  kept when a call becomes an invoke, and holds of no call a lowering creates. Two
  functions have the same shape for \<open>P\<close> when the same blocks leave the function and \<open>P\<close>
  holds of as many instructions.
\<close>

definition stable :: "(Instruction \<Rightarrow> bool) \<Rightarrow> bool" where
  "stable P =
     ((\<forall>x. P x \<longrightarrow> iid x = None)
      \<and> (\<forall>i n x. P (substInst i n x) = P x)
      \<and> (\<forall>x. mayThrowCall x \<longrightarrow> P (changeToInvoke x) = P x)
      \<and> (\<forall>y. loweringCall y \<longrightarrow> \<not> P y))"

definition sameShape ::
  "(Instruction \<Rightarrow> bool) \<Rightarrow> Instruction list list \<Rightarrow> Instruction list list \<Rightarrow> bool" where
  "sameShape P ir ir' = (map isExit ir' = map isExit ir \<and> cnt P ir' = cnt P ir)"

text \<open>
  An edit seen block by block: the uses of \<open>I\<close> replaced in every instruction, the created
  instructions put before \<open>I\<close>, and \<open>I\<close> removed when the edit erases it.
\<close>

definition usesSubst :: "Instruction \<Rightarrow> Value option \<Rightarrow> Instruction \<Rightarrow> Instruction" where
  "usesSubst I r x = (case (iid I, r) of (Some i, Some n) \<Rightarrow> substInst i n x | _ \<Rightarrow> x)"

definition rewriteBlock ::
  "Instruction \<Rightarrow> Edit \<Rightarrow> Instruction list \<Rightarrow> Instruction list" where
  "rewriteBlock I e b =
     concat (map (\<lambda>x. if sameInst I x
                        then map (usesSubst I (usesReplacedBy e)) (created e)
                             @ (if erased e then [] else [usesSubst I (usesReplacedBy e) x])
                        else [usesSubst I (usesReplacedBy e) x]) b)"

text \<open>
  What holds of the state during the traversal: the shape of the function for \<open>P\<close> is that
  of the function the pass was given, nothing is instrumented yet, and a collected memory
  intrinsic has set \<^verbatim>\<open>HasCalls\<close>; and, for the calls of the filter: \<open>k\<close> plain accesses have
  been met, each has its call or waits in \<open>Local\<close>, and every waiting instruction is in
  the function once.
\<close>

definition collected :: "(Instruction \<Rightarrow> bool) \<Rightarrow> Instruction list list \<Rightarrow> PassState \<Rightarrow> bool" where
  "collected P ir0 s =
     (sameShape P ir0 (IR s) \<and> \<not> Res s \<and> (MemIntrinCalls s \<noteq> [] \<longrightarrow> HasCalls s))"

definition pendingInv :: "nat \<Rightarrow> Instruction list list \<Rightarrow> PassState \<Rightarrow> bool" where
  "pendingInv k ir0 s =
     (cnt isPrintProbe (IR s) + length (LocalLoadsAndStores s) = cnt isPrintProbe ir0 + k
      \<and> (\<forall>J. cnt (sameInst J) (IR s) = cnt (sameInst J) ir0)
      \<and> (\<forall>I \<in> set (LocalLoadsAndStores s). cnt (sameInst I) ir0 = 1))"

subsection \<open>Sample functions\<close>

text \<open>
  A function that is not race-checked, one marked both race-checked and not to be
  checked at run time, one marked not to be checked at run time that stores to a global
  and calls a function that may throw, a race-checked function whose only access is a load of a constant
  global, and a race-checked \<^verbatim>\<open>main\<close> with a store to a global.
\<close>

definition sample_unchecked_function :: Function where
  "sample_unchecked_function =
     \<lparr>blocks = [[sample_load, sample_store, sample_slot_store, ReturnInst]], name = ''g'',
      SanitizeThread = False, NoCheckingAtRunTime = False, doesNotThrow = True,
      isTsanCtorFunction = False\<rparr>"

definition sample_both_function :: Function where
  "sample_both_function =
     \<lparr>blocks = [[ReturnInst]], name = ''k'', SanitizeThread = True,
      NoCheckingAtRunTime = True, doesNotThrow = False, isTsanCtorFunction = False\<rparr>"

definition sample_trusted_function :: Function where
  "sample_trusted_function =
     \<lparr>blocks = [[sample_store, CallInst (Some 5) (OtherFn ''h'' False) [], ReturnInst]],
      name = ''k'',
      SanitizeThread = False, NoCheckingAtRunTime = True, doesNotThrow = False,
      isTsanCtorFunction = False\<rparr>"




section \<open>Theorems\<close>

text \<open>
  C3. The encoder sends every ordering that stands for one of the five supported
  orderings to the 32-bit constant the specification lists for it (relaxed, that is
  unordered or monotonic, 0; acquire 2; release 3; acquire-release 4; sequentially
  consistent 5); two supported orderings get the same constant exactly when they are
  the same ordering of the specification; the constant 1 is the result for no ordering;
  and the not-atomic ordering is no handled case: the encoder reaches
  \<^verbatim>\<open>llvm_unreachable\<close>.
\<close>

theorem createOrdering_encoding:
  "createOrdering ord =
     (case supported ord of
        None \<Rightarrow> Inl Unreachable
      | Some m \<Rightarrow> Inr (ConstantInt 32 (spec_encoding m)))
   \<and> ((spec_encoding m1 = spec_encoding m2) = (m1 = m2))
   \<and> ((createOrdering o1 = createOrdering o2) = (supported o1 = supported o2))
   \<and> createOrdering ord \<noteq> Inr (ConstantInt 32 1)
   \<and> spec_encoding m1 \<noteq> 1
   \<and> createOrdering NotAtomic = Inl Unreachable"
proof -
  have a: "createOrdering ord =
     (case supported ord of
        None \<Rightarrow> Inl Unreachable
      | Some m \<Rightarrow> Inr (ConstantInt 32 (spec_encoding m)))"
    by (cases ord) (simp_all add: getInt32_def)
  have b: "(spec_encoding m1 = spec_encoding m2) = (m1 = m2)"
    by (cases m1; cases m2) simp_all
  have c: "(createOrdering o1 = createOrdering o2) = (supported o1 = supported o2)"
    by (cases o1; cases o2) (simp_all add: getInt32_def)
  have d: "createOrdering ord \<noteq> Inr (ConstantInt 32 1)"
    by (cases ord) (simp_all add: getInt32_def)
  have e: "spec_encoding m1 \<noteq> 1"
    by (cases m1) simp_all
  from a b c d e show ?thesis by simp
qed

subsection \<open>The probe table index\<close>

lemma ctz_pow2: "countTrailingZeros (2 ^ k) = k"
  by (induction k) (simp_all add: countTrailingZeros.simps)

lemma supported_size:
  "(T \<in> {8, 16, 32, 64, 128}) = (\<exists>k<5. T = 8 * 2 ^ k)" for T :: nat
proof
  assume "T \<in> {8, 16, 32, 64, 128}"
  then consider "T = 8 * 2 ^ 0" | "T = 8 * 2 ^ 1" | "T = 8 * 2 ^ 2" | "T = 8 * 2 ^ 3" | "T = 8 * 2 ^ 4"
    by auto
  then show "\<exists>k<5. T = 8 * 2 ^ k"
  proof cases
    case 1 then show ?thesis by (intro exI[of _ 0]) simp
  next
    case 2 then show ?thesis by (intro exI[of _ 1]) simp
  next
    case 3 then show ?thesis by (intro exI[of _ 2]) simp
  next
    case 4 then show ?thesis by (intro exI[of _ 3]) simp
  next
    case 5 then show ?thesis by (intro exI[of _ 4]) simp
  qed
next
  assume "\<exists>k<5. T = 8 * 2 ^ k"
  then obtain k where k: "k < 5" "T = 8 * 2 ^ k" by auto
  then have "k = 0 \<or> k = 1 \<or> k = 2 \<or> k = 3 \<or> k = 4" by auto
  with k show "T \<in> {8, 16, 32, 64, 128}" by auto
qed

lemma gmafi_Inr:
  assumes "getMemoryAccessFuncIndex env Addr st = Inr (Idx, st1)"
  shows "(Idx = - 1 \<and> st1 = st\<lparr>NumAccessesWithBadSize := NumAccessesWithBadSize st + 1\<rparr>
            \<and> accessTypeSize env Addr \<notin> {8, 16, 32, 64, 128})
         \<or> (\<exists>k<5. Idx = int k \<and> accessTypeSize env Addr = 8 * 2 ^ k \<and> st1 = st)"
proof (cases "accessTypeSize env Addr \<in> {8, 16, 32, 64, 128}")
  case False
  with assms show ?thesis
    by (auto simp: getMemoryAccessFuncIndex_def accessTypeSize_def Let_def split: if_splits)
next
  case True
  then obtain k where k: "k < 5" "accessTypeSize env Addr = 8 * 2 ^ k"
    unfolding supported_size by auto
  then have d: "accessTypeSize env Addr div 8 = 2 ^ k" by simp
  from True assms have "Idx = int (countTrailingZeros (accessTypeSize env Addr div 8)) \<and> st1 = st"
    by (auto simp: getMemoryAccessFuncIndex_def accessTypeSize_def Let_def split: if_splits)
  with k d show ?thesis by (auto simp: ctz_pow2)
qed


subsection \<open>Access lowering\<close>

lemma ils_True:
  assumes "instrumentLoadOrStore env I st = Inr (True, out, st')"
  shows "\<not> isSwiftError env (getPointerOperand I) \<and>
         (\<exists>k<5. getMemoryAccessFuncIndex env (getPointerOperand I) st = Inr (int k, st)
                \<and> accessTypeSize env (getPointerOperand I) = 8 * 2 ^ k)"
proof -
  from assms have ns: "\<not> isSwiftError env (getPointerOperand I)"
    by (auto simp: instrumentLoadOrStore_def Let_def split: if_splits)
  with assms obtain Idx st1 where g: "getMemoryAccessFuncIndex env (getPointerOperand I) st = Inr (Idx, st1)"
    and nn: "\<not> Idx < 0"
    by (auto simp: instrumentLoadOrStore_def Let_def split: if_splits sum.splits)
  from gmafi_Inr[OF g] nn g show ?thesis using ns by auto
qed

text \<open>
  C6, as amended. For every plain (not dispatch-table) load or store for which a probe
  is emitted, the access size is one of 1, 2, 4, 8, 16 bytes, and the aligned variant
  (\<open>TsanRead\<close>, \<open>TsanWrite\<close>) is selected exactly when the declared alignment is 0, or
  at least 8, or a multiple of the access size; the unaligned variant otherwise.
\<close>

theorem aligned_probe_selection:
  assumes "instrumentLoadOrStore env I st = Inr (True, out, st')"
      and "\<not> isVtableAccess I"
  shows "\<exists>k args. k < 5 \<and> accessTypeSize env (getPointerOperand I) = 8 * ByteSize k \<and>
           out = [CallInst None
                    (if getAlignment I = 0 \<or> 8 \<le> getAlignment I
                        \<or> getAlignment I mod ByteSize k = 0
                     then (if isaStoreInst I then TsanWrite k else TsanRead k)
                     else (if isaStoreInst I then TsanUnalignedWrite k
                           else TsanUnalignedRead k))
                    args]"
proof -
  from ils_True[OF assms(1)] obtain k where ns: "\<not> isSwiftError env (getPointerOperand I)"
    and k: "k < 5" "getMemoryAccessFuncIndex env (getPointerOperand I) st = Inr (int k, st)"
       "accessTypeSize env (getPointerOperand I) = 8 * 2 ^ k" by auto
  from k(3) have d: "getTypeStoreSizeInBits env (getElementType (getType (getPointerOperand I))) mod 2 ^ 32 div 8 = 2 ^ k"
    by (simp add: accessTypeSize_def)
  from assms ns k(2) d show ?thesis
    using k(1) k(3)
    by (auto simp: instrumentLoadOrStore_def Let_def ByteSize_def simp del: power_numeral split: if_splits)
qed


theorem aligned_probe_selection_witness:
  "instrumentLoadOrStore sample_env
     (LoadInst 7 (Argument 0 (PointerTy (IntegerTy 32) 0)) NotAtomic CrossThread 2 False)
     no_stats =
   Inr (True,
        [CallInst None (TsanUnalignedRead 2)
           [CreatePointerCast (Argument 0 (PointerTy (IntegerTy 32) 0)) getInt8PtrTy,
            CreateIntCast (ConstantInt 32 300) getInt8Ty False,
            GlobalVariable ''.str.obj'' [] True getInt8PtrTy,
            GlobalVariable ''.str.file'' [] True getInt8PtrTy]],
        no_stats\<lparr>NumInstrumentedReads := 1\<rparr>)
   \<and> \<not> isVtableAccess
         (LoadInst 7 (Argument 0 (PointerTy (IntegerTy 32) 0)) NotAtomic CrossThread 2 False)
   \<and> (2::nat) \<noteq> 0 \<and> \<not> 8 \<le> (2::nat) \<and> (2::nat) mod ByteSize 2 \<noteq> 0"
proof -
  let ?P = "Argument 0 (PointerTy (IntegerTy 32) 0)"
  let ?I = "LoadInst 7 ?P NotAtomic CrossThread 2 False"
  let ?out = "[CallInst None (TsanUnalignedRead 2)
           [CreatePointerCast ?P getInt8PtrTy,
            CreateIntCast (ConstantInt 32 300) getInt8Ty False,
            GlobalVariable ''.str.obj'' [] True getInt8PtrTy,
            GlobalVariable ''.str.file'' [] True getInt8PtrTy]]"
  have h: "instrumentLoadOrStore sample_env ?I no_stats =
             Inr (True, ?out, no_stats\<lparr>NumInstrumentedReads := 1\<rparr>)"
    by (simp add: instrumentLoadOrStore_def sample_env_def getMemoryAccessFuncIndex_def
        kNumberOfAccessSizes_def Let_def no_stats_def ctz_pow2[of 2, simplified])
  have v: "\<not> isVtableAccess ?I" by simp
  from aligned_probe_selection[OF h v] obtain k args where
    k: "accessTypeSize sample_env (getPointerOperand ?I) = 8 * ByteSize k"
    and o: "?out = [CallInst None
                    (if getAlignment ?I = 0 \<or> 8 \<le> getAlignment ?I
                        \<or> getAlignment ?I mod ByteSize k = 0
                     then (if isaStoreInst ?I then TsanWrite k else TsanRead k)
                     else (if isaStoreInst ?I then TsanUnalignedWrite k
                           else TsanUnalignedRead k))
                    args]"
    by blast
  from o have "k = 2 \<and> (2::nat) mod ByteSize k \<noteq> 0"
    by (simp split: if_splits)
  with h v show ?thesis by (auto simp: ByteSize_def)
qed

text \<open>
  C6, as stated, fails: a store of 16 bytes whose declared alignment is 8 gets the
  aligned probe \<^verbatim>\<open>__tsan_write16\<close>, although 8 is not compatible with the natural
  alignment of a 16-byte access.
\<close>

theorem aligned_probe_counterexample:
  "instrumentLoadOrStore sample_env
     (StoreInst 1 (Argument 1 (IntegerTy 128)) (Argument 0 (PointerTy (IntegerTy 128) 0))
        NotAtomic CrossThread 8 False) no_stats =
   Inr (True,
        [CallInst None (TsanWrite 4)
           [CreatePointerCast (Argument 0 (PointerTy (IntegerTy 128) 0)) getInt8PtrTy,
            CreateIntCast (ConstantInt 32 300) getInt8Ty False,
            GlobalVariable ''.str.obj'' [] True getInt8PtrTy,
            GlobalVariable ''.str.file'' [] True getInt8PtrTy]],
        no_stats\<lparr>NumInstrumentedWrites := 1\<rparr>)
   \<and> calleeName (TsanWrite 4) = ''__tsan_write16''
   \<and> accessTypeSize sample_env (Argument 0 (PointerTy (IntegerTy 128) 0)) = 8 * 16
   \<and> \<not> spec_alignment_compatible 8 16"
  by (simp add: instrumentLoadOrStore_def sample_env_def getMemoryAccessFuncIndex_def
        kNumberOfAccessSizes_def Let_def no_stats_def ctz_pow2[of 4, simplified]
        accessTypeSize_def spec_alignment_compatible_def ByteSize_def utostr.simps digit_def)

text \<open>
  C10. In every plain-access and dispatch-table probe call the pass emits, the argument
  at the position of the source line, which the probe declares as an 8-bit integer, is
  the line number cast to \<^verbatim>\<open>i8\<close>; at run time it is the line number modulo 256.
\<close>

theorem line_argument_mod_256:
  assumes "instrumentLoadOrStore env I st = Inr (True, out, st')"
      and "eval env rho (getLineNumber env I) = IntV w n"
  shows "\<exists>f args. out = [CallInst None f args] \<and> lineParam f < length args
           \<and> paramTypes env f ! lineParam f = getInt8Ty
           \<and> args ! lineParam f = CreateIntCast (getLineNumber env I) getInt8Ty False
           \<and> eval env rho (args ! lineParam f) = IntV 8 (n mod 256)"
proof -
  have e: "eval env rho (CreateIntCast (getLineNumber env I) getInt8Ty False) = IntV 8 (n mod 256)"
    using assms(2) by (simp add: getInt8Ty_def intCast_def)
  from assms(1) e show ?thesis
    by (auto simp: instrumentLoadOrStore_def Let_def split: if_splits sum.splits)
qed

theorem line_argument_mod_256_witness:
  "instrumentLoadOrStore sample_env
     (LoadInst 7 (Argument 0 (PointerTy (IntegerTy 32) 0)) NotAtomic CrossThread 2 False)
     no_stats =
   Inr (True,
        [CallInst None (TsanUnalignedRead 2)
           [CreatePointerCast (Argument 0 (PointerTy (IntegerTy 32) 0)) getInt8PtrTy,
            CreateIntCast (ConstantInt 32 300) getInt8Ty False,
            GlobalVariable ''.str.obj'' [] True getInt8PtrTy,
            GlobalVariable ''.str.file'' [] True getInt8PtrTy]],
        no_stats\<lparr>NumInstrumentedReads := 1\<rparr>)
   \<and> eval sample_env (\<lambda>v. UndefV)
         (getLineNumber sample_env
            (LoadInst 7 (Argument 0 (PointerTy (IntegerTy 32) 0)) NotAtomic CrossThread 2 False))
       = IntV 32 300
   \<and> eval sample_env (\<lambda>v. UndefV) (CreateIntCast (ConstantInt 32 300) getInt8Ty False)
       = IntV 8 44"
proof -
  let ?P = "Argument 0 (PointerTy (IntegerTy 32) 0)"
  let ?I = "LoadInst 7 ?P NotAtomic CrossThread 2 False"
  let ?out = "[CallInst None (TsanUnalignedRead 2)
           [CreatePointerCast ?P getInt8PtrTy,
            CreateIntCast (ConstantInt 32 300) getInt8Ty False,
            GlobalVariable ''.str.obj'' [] True getInt8PtrTy,
            GlobalVariable ''.str.file'' [] True getInt8PtrTy]]"
  have h: "instrumentLoadOrStore sample_env ?I no_stats =
             Inr (True, ?out, no_stats\<lparr>NumInstrumentedReads := 1\<rparr>)"
    by (simp add: instrumentLoadOrStore_def sample_env_def getMemoryAccessFuncIndex_def
        kNumberOfAccessSizes_def Let_def no_stats_def ctz_pow2[of 2, simplified])
  have l: "eval sample_env (\<lambda>v. UndefV) (getLineNumber sample_env ?I) = IntV 32 300"
    by (simp add: sample_env_def)
  from line_argument_mod_256[OF h l] obtain f args where
    "?out = [CallInst None f args]"
    "eval sample_env (\<lambda>v. UndefV) (args ! lineParam f) = IntV 8 (300 mod 256)"
    by blast
  then have "eval sample_env (\<lambda>v. UndefV) (CreateIntCast (ConstantInt 32 300) getInt8Ty False)
       = IntV 8 44"
    by auto
  with h l show ?thesis by simp
qed

lemma gmafi_bad:
  assumes "isSized (getElementType (getType Addr))"
      and "accessTypeSize env Addr \<notin> {8, 16, 32, 64, 128}"
  shows "getMemoryAccessFuncIndex env Addr st = Inr (- 1, countBadSize st)"
  using assms by (simp add: getMemoryAccessFuncIndex_def accessTypeSize_def Let_def countBadSize_def)

lemma gmafi_supported:
  assumes "isSized (getElementType (getType Addr))"
      and "k < 5" and "accessTypeSize env Addr = 8 * 2 ^ k"
  shows "getMemoryAccessFuncIndex env Addr st = Inr (int k, st)"
proof -
  from assms(2,3) have m: "accessTypeSize env Addr \<in> {8, 16, 32, 64, 128}"
    unfolding supported_size by blast
  from assms(3) have d: "accessTypeSize env Addr div 8 = 2 ^ k" by simp
  show ?thesis
    unfolding getMemoryAccessFuncIndex_def Let_def accessTypeSize_def[symmetric]
    using m d assms(1,2) by (simp add: ctz_pow2 kNumberOfAccessSizes_def)
qed

subsection \<open>Edits that change nothing\<close>

lemma insertBefore_Nil [simp]: "insertBefore I [] ir = ir"
  by (simp add: insertBefore_def map_idI concat_map_singleton cong: if_cong)

lemma replaceAllUsesWithin_None [simp]: "replaceAllUsesWithin I None xs = xs"
  by (simp add: replaceAllUsesWithin_def split: option.splits)

lemma replaceAllUsesWith_None [simp]: "replaceAllUsesWith I None ir = ir"
  by (simp add: replaceAllUsesWith_def map_idI)

lemma no_edit_simps [simp]:
  "created no_edit = []" "usesReplacedBy no_edit = None" "erased no_edit = False"
  by (simp_all add: no_edit_def)

lemma applyEdit_no_edit [simp]: "applyEdit I no_edit ir = ir"
  by (simp add: applyEdit_def)

lemma concat_insertBefore:
  "concat (insertBefore I new ir) =
     concat (map (\<lambda>x. if sameInst I x then new @ [x] else [x]) (concat ir))"
  by (induction ir) (simp_all add: insertBefore_def)

lemma set_concat_insertBefore:
  "set (concat (insertBefore I new ir)) =
     set (concat ir) \<union> (if occurs I ir then set new else {})"
proof -
  have "set (concat (map (\<lambda>x. if sameInst I x then new @ [x] else [x]) xs)) =
          set xs \<union> (if list_ex (sameInst I) xs then set new else {})" for xs
    by (induction xs) auto
  then show ?thesis unfolding concat_insertBefore occurs_def .
qed

lemma occurs_insertBefore: "occurs J ir \<Longrightarrow> occurs J (insertBefore I new ir)"
  unfolding occurs_def list_ex_iff set_concat_insertBefore by blast

subsection \<open>Soft skips\<close>

lemma shouldInstrument_iff:
  "shouldInstrumentReadWriteFromAddress env Addr =
     (\<not> reservedCounterRegion env Addr \<and> \<not> nonDefaultAddressSpace env Addr)"
  by (simp add: shouldInstrumentReadWriteFromAddress_def reservedCounterRegion_def
      nonDefaultAddressSpace_def Let_def)

lemma instrumentAtomic_bad:
  assumes "hasPointerOperand I"
      and "getMemoryAccessFuncIndex env (getPointerOperand I) st = Inr (- 1, st1)"
  shows "instrumentAtomic env I st = Inr (False, no_edit, st1)"
  using assms by (cases I) simp_all


lemma instrumentLoadOrStore_bad:
  assumes "\<not> isSwiftError env (getPointerOperand I)"
      and "getMemoryAccessFuncIndex env (getPointerOperand I) st = Inr (- 1, st1)"
  shows "instrumentLoadOrStore env I st = Inr (False, [], st1)"
  using assms by (simp add: instrumentLoadOrStore_def Let_def)

lemma PassState_same [simp]:
  "s\<lparr>IR := IR s, Res := Res s, stats := st\<rparr> = s\<lparr>stats := st\<rparr>"
  "s\<lparr>IR := IR s, MemIntrinCalls := MemIntrinCalls s, Res := Res s, stats := st\<rparr> = s\<lparr>stats := st\<rparr>"
  by simp_all

lemma accessTypeSize_small:
  "storeSizeInBits env Addr < 2 ^ 32 \<Longrightarrow> accessTypeSize env Addr = storeSizeInBits env Addr"
  by (simp add: accessTypeSize_def storeSizeInBits_def)

text \<open>
  C5, as amended. (1) When the store size of the accessed type, below \<open>2^32\<close> bits, is not
  8, 16, 32, 64 or 128 bits (a byte size outside 1, 2, 4, 8, 16), the index function
  returns -1 and counts the access in \<open>NumAccessesWithBadSize\<close>; access lowering and atomic
  lowering then return false, emit nothing, leave the instruction in place, and the
  lowering loop goes on with the rest of the work list. (2) An atomic read-modify-write
  whose operation has no probe (max, min, umax, umin) makes atomic lowering return false
  with no edit and no counter, and the loop goes on. (3) An address in an address space
  other than 0, or in a counter region of the toolchain, is not to be instrumented; the
  test is made by the filter, which sees plain loads and stores only. For such a load or
  store the filter leaves the write set, the scheduled list and the counters as they
  are, so that no race probe is emitted for it, but it still places its call of
  \<^verbatim>\<open>__tsan_print_variables\<close> before the instruction. An atomic instruction goes to the
  list of atomic accesses without a test of its address.
\<close>

theorem soft_skips:
  "(isSized (getElementType (getType (getPointerOperand I)))
      \<and> storeSizeInBits env (getPointerOperand I) < 2 ^ 32
      \<and> storeSizeInBits env (getPointerOperand I) \<notin> {8, 16, 32, 64, 128} \<longrightarrow>
      getMemoryAccessFuncIndex env (getPointerOperand I) st = Inr (- 1, countBadSize st)
      \<and> (\<not> isSwiftError env (getPointerOperand I) \<longrightarrow>
           instrumentLoadOrStore env I st = Inr (False, [], countBadSize st)
           \<and> lowerLoadsAndStores env (I # rest) s =
               lowerLoadsAndStores env rest (s\<lparr>stats := countBadSize (stats s)\<rparr>))
      \<and> (hasPointerOperand I \<longrightarrow>
           instrumentAtomic env I st = Inr (False, no_edit, countBadSize st)
           \<and> lowerAtomics env (I # rest) s =
               lowerAtomics env rest (s\<lparr>stats := countBadSize (stats s)\<rparr>)))
   \<and> ((TsanAtomicRMW op k = None) = (op \<in> {MaxOp, MinOp, UMax, UMin}))
   \<and> (isSized (getElementType (getType Addr)) \<and> k < 5
        \<and> storeSizeInBits env Addr = 8 * ByteSize k \<and> TsanAtomicRMW op k = None \<longrightarrow>
        instrumentAtomic env (AtomicRMWInst i op Addr v ord) st = Inr (False, no_edit, st)
        \<and> lowerAtomics env (AtomicRMWInst i op Addr v ord # rest) s =
            lowerAtomics env rest s)
   \<and> (nonDefaultAddressSpace env Addr \<or> reservedCounterRegion env Addr \<longrightarrow>
        \<not> shouldInstrumentReadWriteFromAddress env Addr)
   \<and> (\<not> shouldInstrumentReadWriteFromAddress env (getPointerOperand I) \<longrightarrow>
        chooseStep env I (WriteTargets, s) =
          (WriteTargets, s\<lparr>IR := insertBefore I [printFor env I] (IR s)\<rparr>)
        \<and> (occurs I (IR s) \<longrightarrow>
             printFor env I \<in> set (concat (insertBefore I [printFor env I] (IR s)))))
   \<and> (isAtomic I \<longrightarrow> visitInst env I s = s\<lparr>AtomicAccesses := AtomicAccesses s @ [I]\<rparr>)"
proof -
  have a: "getMemoryAccessFuncIndex env (getPointerOperand I) st = Inr (- 1, countBadSize st)
      \<and> (\<not> isSwiftError env (getPointerOperand I) \<longrightarrow>
           instrumentLoadOrStore env I st = Inr (False, [], countBadSize st)
           \<and> lowerLoadsAndStores env (I # rest) s =
               lowerLoadsAndStores env rest (s\<lparr>stats := countBadSize (stats s)\<rparr>))
      \<and> (hasPointerOperand I \<longrightarrow>
           instrumentAtomic env I st = Inr (False, no_edit, countBadSize st)
           \<and> lowerAtomics env (I # rest) s =
               lowerAtomics env rest (s\<lparr>stats := countBadSize (stats s)\<rparr>))"
    if sz: "isSized (getElementType (getType (getPointerOperand I)))"
      and sm: "storeSizeInBits env (getPointerOperand I) < 2 ^ 32"
      and bd: "storeSizeInBits env (getPointerOperand I) \<notin> {8, 16, 32, 64, 128}"
  proof -
    from bd have bad: "accessTypeSize env (getPointerOperand I) \<notin> {8, 16, 32, 64, 128}"
      unfolding accessTypeSize_small[OF sm] .
    note g = gmafi_bad[OF sz bad]
    have l: "instrumentLoadOrStore env I st' = Inr (False, [], countBadSize st')"
      if "\<not> isSwiftError env (getPointerOperand I)" for st'
      using that g[of st'] by (rule instrumentLoadOrStore_bad)
    have m: "instrumentAtomic env I st' = Inr (False, no_edit, countBadSize st')"
      if "hasPointerOperand I" for st'
      using that g[of st'] by (rule instrumentAtomic_bad)
    show ?thesis using g[of st] l m by simp
  qed
  have b: "(TsanAtomicRMW op k = None) = (op \<in> {MaxOp, MinOp, UMax, UMin})"
    by (cases op) (simp_all add: TsanAtomicRMW_def)
  have c: "instrumentAtomic env (AtomicRMWInst i op Addr v ord) st = Inr (False, no_edit, st)
        \<and> lowerAtomics env (AtomicRMWInst i op Addr v ord # rest) s = lowerAtomics env rest s"
    if sz: "isSized (getElementType (getType Addr))" and k: "k < 5"
      and ts: "storeSizeInBits env Addr = 8 * ByteSize k" and n: "TsanAtomicRMW op k = None"
  proof -
    from k have "(2::nat) ^ k \<le> 2 ^ 4" by (intro power_increasing) simp_all
    then have "8 * ByteSize k < (2::nat) ^ 32" by (simp add: ByteSize_def)
    with ts have "storeSizeInBits env Addr < 2 ^ 32" by simp
    from accessTypeSize_small[OF this] ts
    have "accessTypeSize env Addr = 8 * 2 ^ k" by (simp add: ByteSize_def)
    note g = gmafi_supported[OF sz k this]
    have "instrumentAtomic env (AtomicRMWInst i op Addr v ord) st' = Inr (False, no_edit, st')" for st'
      using g[of st'] n by simp
    then show ?thesis by simp
  qed
  have d: "\<not> shouldInstrumentReadWriteFromAddress env Addr"
    if "nonDefaultAddressSpace env Addr \<or> reservedCounterRegion env Addr"
    using that by (auto simp: shouldInstrument_iff)
  have e: "chooseStep env I (WriteTargets, s) =
          (WriteTargets, s\<lparr>IR := insertBefore I [printFor env I] (IR s)\<rparr>)"
    if "\<not> shouldInstrumentReadWriteFromAddress env (getPointerOperand I)"
    using that by (simp add: Let_def printFor_def)
  have f: "printFor env I \<in> set (concat (insertBefore I [printFor env I] (IR s)))"
    if "occurs I (IR s)"
    unfolding set_concat_insertBefore using that by simp
  have g: "visitInst env I s = s\<lparr>AtomicAccesses := AtomicAccesses s @ [I]\<rparr>" if "isAtomic I"
    using that by (simp add: visitInst_def)
  from a b c d e f g show ?thesis by blast
qed

theorem soft_skips_witness:
  "storeSizeInBits sample_env (Argument 0 (PointerTy (IntegerTy 24) 0)) \<notin> {8, 16, 32, 64, 128}
   \<and> instrumentLoadOrStore sample_env
         (LoadInst 1 (Argument 0 (PointerTy (IntegerTy 24) 0)) Monotonic CrossThread 1 False)
         no_stats = Inr (False, [], countBadSize no_stats)
   \<and> instrumentAtomic sample_env
         (LoadInst 1 (Argument 0 (PointerTy (IntegerTy 24) 0)) Monotonic CrossThread 1 False)
         no_stats = Inr (False, no_edit, countBadSize no_stats)
   \<and> visitInst sample_env
         (LoadInst 1 (Argument 0 (PointerTy (IntegerTy 24) 0)) Monotonic CrossThread 1 False)
         sample_segment
       = sample_segment\<lparr>AtomicAccesses :=
           [LoadInst 1 (Argument 0 (PointerTy (IntegerTy 24) 0)) Monotonic CrossThread 1 False]\<rparr>
   \<and> TsanAtomicRMW UMax 2 = None
   \<and> storeSizeInBits sample_env (Argument 0 (PointerTy (IntegerTy 32) 0)) = 8 * ByteSize 2
   \<and> instrumentAtomic sample_env
         (AtomicRMWInst 2 UMax (Argument 0 (PointerTy (IntegerTy 32) 0)) (ConstantInt 32 1)
            Monotonic)
         no_stats = Inr (False, no_edit, no_stats)
   \<and> reservedCounterRegion sample_env sample_counter
   \<and> \<not> shouldInstrumentReadWriteFromAddress sample_env sample_counter
   \<and> chooseStep sample_env sample_counter_store
         ({}, \<lparr>IR = [[sample_counter_store, ReturnInst]], AllLoadsAndStores = [],
               LocalLoadsAndStores = [sample_counter_store],
               AtomicAccesses = [], MemIntrinCalls = [], HasCalls = False, Res = False,
               stats = no_stats\<rparr>)
       = ({}, \<lparr>IR = [[printVariablesCall sample_env 391 sample_counter sample_counter_store,
                       sample_counter_store, ReturnInst]],
               AllLoadsAndStores = [], LocalLoadsAndStores = [sample_counter_store],
               AtomicAccesses = [], MemIntrinCalls = [], HasCalls = False, Res = False,
               stats = no_stats\<rparr>)"
proof -
  let ?P = "Argument 0 (PointerTy (IntegerTy 24) 0)"
  let ?L = "LoadInst 1 ?P Monotonic CrossThread 1 False"
  let ?Q = "Argument 0 (PointerTy (IntegerTy 32) 0)"
  let ?G = "sample_counter"
  let ?S = "sample_counter_store"
  let ?s = "\<lparr>IR = [[sample_counter_store, ReturnInst]], AllLoadsAndStores = [],
               LocalLoadsAndStores = [sample_counter_store],
               AtomicAccesses = [], MemIntrinCalls = [], HasCalls = False, Res = False,
               stats = no_stats\<rparr>"
  have h1: "isSized (getElementType (getType (getPointerOperand ?L)))" by simp
  have h2: "storeSizeInBits sample_env (getPointerOperand ?L) \<notin> {8, 16, 32, 64, 128}"
    by (simp add: storeSizeInBits_def sample_env_def)
  have h2s: "storeSizeInBits sample_env (getPointerOperand ?L) < 2 ^ 32"
    by (simp add: storeSizeInBits_def sample_env_def)
  have h3: "\<not> isSwiftError sample_env (getPointerOperand ?L)" by (simp add: sample_env_def)
  have h4: "hasPointerOperand ?L" by simp
  have h4a: "isAtomic ?L" by simp
  have h5: "isSized (getElementType (getType ?Q))" by simp
  have h6: "storeSizeInBits sample_env ?Q = 8 * ByteSize 2"
    by (simp add: storeSizeInBits_def sample_env_def ByteSize_def)
  have h7: "TsanAtomicRMW UMax 2 = None" by (simp add: TsanAtomicRMW_def)
  have h8: "reservedCounterRegion sample_env ?G"
    by (simp add: reservedCounterRegion_def sample_env_def startswith_def sample_counter_def)
  note t1 = soft_skips[where I = ?L and env = sample_env and st = no_stats and rest = "[]"
      and s = sample_segment and op = UMax and k = 2 and Addr = ?Q and i = 2
      and v = "ConstantInt 32 1" and ord = Monotonic and WriteTargets = "{}"]
  note t2 = soft_skips[where I = ?S and env = sample_env and st = no_stats and rest = "[]"
      and s = ?s and op = UMax and k = 2 and Addr = ?G and i = 2 and v = "ConstantInt 32 1"
      and ord = Monotonic and WriteTargets = "{}"]
  have h9: "(2::nat) < 5" by simp
  from t1 h1 h2 h2s h3 h4 h5 h6 h7 h9
  have a: "instrumentLoadOrStore sample_env ?L no_stats = Inr (False, [], countBadSize no_stats)"
    and b: "instrumentAtomic sample_env ?L no_stats = Inr (False, no_edit, countBadSize no_stats)"
    and c: "instrumentAtomic sample_env (AtomicRMWInst 2 UMax ?Q (ConstantInt 32 1) Monotonic)
              no_stats = Inr (False, no_edit, no_stats)"
    by blast+
  from t1 h4a have "visitInst sample_env ?L sample_segment
      = sample_segment\<lparr>AtomicAccesses := AtomicAccesses sample_segment @ [?L]\<rparr>" by blast
  then have v: "visitInst sample_env ?L sample_segment
      = sample_segment\<lparr>AtomicAccesses := [?L]\<rparr>"
    by (simp add: sample_segment_def)
  from t2 h8 have d: "\<not> shouldInstrumentReadWriteFromAddress sample_env ?G" by blast
  then have d': "\<not> shouldInstrumentReadWriteFromAddress sample_env (getPointerOperand ?S)"
    by (simp add: sample_counter_store_def)
  from t2 d' have e: "chooseStep sample_env ?S ({}, ?s) =
          ({}, ?s\<lparr>IR := insertBefore ?S [printFor sample_env ?S] (IR ?s)\<rparr>)"
    by blast
  have i: "insertBefore ?S [printFor sample_env ?S] [[?S, ReturnInst]] =
      [[printVariablesCall sample_env 391 sample_counter sample_counter_store, ?S, ReturnInst]]"
    by (simp add: insertBefore_def sameInst_def printFor_def sample_counter_store_def)
  have f: "chooseStep sample_env ?S ({}, ?s) =
       ({}, \<lparr>IR = [[printVariablesCall sample_env 391 sample_counter sample_counter_store,
                       sample_counter_store, ReturnInst]],
               AllLoadsAndStores = [], LocalLoadsAndStores = [sample_counter_store],
               AtomicAccesses = [], MemIntrinCalls = [], HasCalls = False, Res = False,
               stats = no_stats\<rparr>)"
    unfolding e by (simp add: i)
  have h2': "storeSizeInBits sample_env ?P \<notin> {8, 16, 32, 64, 128}" using h2 by simp
  show ?thesis
    by (intro conjI) (rule h2' a b v h7 h6 c h8 d f)+
qed

text \<open>
  C5, as stated, fails for an atomic access: the atomic increment of a
  counter of the coverage tool, an address that is not to be instrumented, is lowered to
  a call of the probe of the 64-bit atomic addition, and the pass over the function that holds it
  replaces it by that call.
\<close>

theorem soft_skips_counterexample:
  "reservedCounterRegion sample_env sample_counter
   \<and> \<not> shouldInstrumentReadWriteFromAddress sample_env (getPointerOperand sample_counter_rmw)
   \<and> instrumentAtomic sample_env sample_counter_rmw no_stats =
       Inr (True,
            \<lparr>created = [CallInst None (TsanAtomicRMWFn Add 3)
                          [CreatePointerCast sample_counter (getPointerTo (getIntNTy 64)),
                           CreateIntCast (ConstantInt 64 1) (getIntNTy 64) False,
                           getInt32 0]],
             usesReplacedBy = Some (ProbeResult 1 (getIntNTy 64)), erased = True\<rparr>,
            no_stats)
   \<and> runOnFunction sample_env default_options sample_counter_function no_stats =
       Inr (sample_counter_function
              \<lparr>blocks :=
                 [[CallInst None TsanFuncEntry
                     [CreatePointerCast (GlobalVariable ''f'' [] True getInt8PtrTy)
                        getInt8PtrTy],
                   CallInst None (TsanAtomicRMWFn Add 3)
                     [CreatePointerCast sample_counter (getPointerTo (getIntNTy 64)),
                      CreateIntCast (ConstantInt 64 1) (getIntNTy 64) False,
                      getInt32 0],
                   CallInst None TsanFuncExit
                     [CreatePointerCast (GlobalVariable ''f'' [] True getInt8PtrTy)
                        getInt8PtrTy],
                   ReturnInst]]\<rparr>,
            True, no_stats)"
proof -
  have a: "reservedCounterRegion sample_env sample_counter"
    by (simp add: reservedCounterRegion_def sample_env_def startswith_def sample_counter_def)
  have b: "\<not> shouldInstrumentReadWriteFromAddress sample_env
              (getPointerOperand sample_counter_rmw)"
    using a by (simp add: shouldInstrument_iff sample_counter_rmw_def)
  have c: "instrumentAtomic sample_env sample_counter_rmw no_stats =
       Inr (True,
            \<lparr>created = [CallInst None (TsanAtomicRMWFn Add 3)
                          [CreatePointerCast sample_counter (getPointerTo (getIntNTy 64)),
                           CreateIntCast (ConstantInt 64 1) (getIntNTy 64) False,
                           getInt32 0]],
             usesReplacedBy = Some (ProbeResult 1 (getIntNTy 64)), erased = True\<rparr>,
            no_stats)"
    by (simp add: sample_counter_rmw_def sample_counter_def getMemoryAccessFuncIndex_def
        Let_def sample_env_def kNumberOfAccessSizes_def ctz_pow2[of 3, simplified]
        TsanAtomicRMW_def BitSize_def ByteSize_def)
  have e: "runOnFunction sample_env default_options sample_counter_function no_stats =
       Inr (sample_counter_function
              \<lparr>blocks :=
                 [[CallInst None TsanFuncEntry
                     [CreatePointerCast (GlobalVariable ''f'' [] True getInt8PtrTy)
                        getInt8PtrTy],
                   CallInst None (TsanAtomicRMWFn Add 3)
                     [CreatePointerCast sample_counter (getPointerTo (getIntNTy 64)),
                      CreateIntCast (ConstantInt 64 1) (getIntNTy 64) False,
                      getInt32 0],
                   CallInst None TsanFuncExit
                     [CreatePointerCast (GlobalVariable ''f'' [] True getInt8PtrTy)
                        getInt8PtrTy],
                   ReturnInst]]\<rparr>,
            True, no_stats)"
    by (simp add: runOnFunction_def collect_def visitBlock_def visitInst_def
        chooseInstructionsToInstrument_def chooseLoop_def default_options_def Let_def
        sample_counter_function_def sample_counter_rmw_def sample_counter_def
        getMemoryAccessFuncIndex_def sample_env_def kNumberOfAccessSizes_def
        ctz_pow2[of 3, simplified] TsanAtomicRMW_def applyEdit_def insertBefore_def
        eraseFromParent_def sameInst_def replaceAllUsesWith_def replaceAllUsesWithin_def
        instrumentEntryExit_def EscapeEnumerator_def atExit_def BitSize_def ByteSize_def
        getInt32_def)
  show ?thesis
    by (intro conjI) (rule a b c e)+
qed

subsection \<open>The local redundancy filter\<close>

lemma addrPointsToConstantData_fst:
  "fst (addrPointsToConstantData Addr st) = pointsToConstantData Addr"
  by (simp add: addrPointsToConstantData_def pointsToConstantData_def Let_def
      split: Value.splits)

lemma addrPointsToConstantData_NonCaptured:
  "NumOmittedNonCaptured (snd (addrPointsToConstantData Addr st)) = NumOmittedNonCaptured st"
  by (simp add: addrPointsToConstantData_def Let_def split: Value.splits)

text \<open>
  Once the call of \<^verbatim>\<open>__tsan_print_variables\<close> stands before \<open>I\<close>, the address of \<open>I\<close> is
  passed to a function that may keep it: the capture analysis answers that the pointer
  may be captured, whatever the uses the function had.
\<close>

lemma captured_after_print:
  assumes "occurs I ir"
  shows "PointerMayBeCaptured env (getPointerOperand I)
           (insertBefore I [printVariablesCall env n (getPointerOperand I) I] ir)"
proof -
  have "passesPointer (getPointerOperand I) (printVariablesCall env n (getPointerOperand I) I)"
    by (simp add: printVariablesCall_def)
  moreover have "printVariablesCall env n (getPointerOperand I) I \<in>
      set (concat (insertBefore I [printVariablesCall env n (getPointerOperand I) I] ir))"
    unfolding set_concat_insertBefore using assms by simp
  ultimately show ?thesis
    unfolding PointerMayBeCaptured_def list_ex_iff by blast
qed

lemma chooseStep_fst:
  "fst (chooseStep env I (W, s)) =
     (if isaStoreInst I \<and> shouldInstrumentReadWriteFromAddress env (getPointerOperand I)
      then insert (getPointerOperand I) W else W)"
  by (simp add: Let_def split: prod.splits)

lemma chooseStep_IR:
  "IR (snd (chooseStep env I (W, s))) = insertBefore I [printFor env I] (IR s)"
  by (simp add: Let_def printFor_def split: prod.splits)

lemma fold_chooseStep_IR:
  "IR (snd (fold (chooseStep env) xs (W, s))) =
     fold (\<lambda>I. insertBefore I [printFor env I]) xs (IR s)"
proof (induction xs arbitrary: W s)
  case Nil
  then show ?case by simp
next
  case (Cons I xs)
  obtain W1 s1 where st: "chooseStep env I (W, s) = (W1, s1)" by (cases "chooseStep env I (W, s)")
  with chooseStep_IR[of env I W s] Cons[of W1 s1] show ?case by simp
qed

lemma chooseInstructionsToInstrument_IR:
  "IR (chooseInstructionsToInstrument env s) =
     fold (\<lambda>I. insertBefore I [printFor env I]) (rev (LocalLoadsAndStores s)) (IR s)"
  by (simp add: chooseInstructionsToInstrument_def chooseLoop_def fold_chooseStep_IR)

lemma chooseStep_All:
  assumes "occurs I (IR s)"
  shows "AllLoadsAndStores (snd (chooseStep env I (W, s))) =
           AllLoadsAndStores s @ (if keep env I W then [I] else [])"
    and "NumOmittedNonCaptured (stats (snd (chooseStep env I (W, s)))) =
           NumOmittedNonCaptured (stats s)"
proof -
  obtain st' where a: "addrPointsToConstantData (getPointerOperand I) (stats s) =
      (pointsToConstantData (getPointerOperand I), st')"
    using addrPointsToConstantData_fst[of "getPointerOperand I" "stats s"]
    by (cases "addrPointsToConstantData (getPointerOperand I) (stats s)") simp
  with addrPointsToConstantData_NonCaptured[of "getPointerOperand I" "stats s"]
  have n: "NumOmittedNonCaptured st' = NumOmittedNonCaptured (stats s)" by simp
  note c = captured_after_print[OF assms, of env]
  show "AllLoadsAndStores (snd (chooseStep env I (W, s))) =
           AllLoadsAndStores s @ (if keep env I W then [I] else [])"
    using a c[of 391] c[of 403] by (simp add: Let_def keep_def)
  show "NumOmittedNonCaptured (stats (snd (chooseStep env I (W, s)))) =
           NumOmittedNonCaptured (stats s)"
    using a n c[of 391] c[of 403] by (simp add: Let_def)
qed

lemma fold_chooseStep:
  assumes "\<forall>I \<in> set xs. occurs I (IR s)"
  shows "fst (fold (chooseStep env) xs (W, s)) = W \<union> writes env xs \<and>
         AllLoadsAndStores (snd (fold (chooseStep env) xs (W, s))) =
           AllLoadsAndStores s @ sched env xs W \<and>
         NumOmittedNonCaptured (stats (snd (fold (chooseStep env) xs (W, s)))) =
           NumOmittedNonCaptured (stats s)"
  using assms
proof (induction xs arbitrary: W s)
  case Nil
  then show ?case by (simp add: writes_def)
next
  case (Cons I xs)
  obtain W1 s1 where st: "chooseStep env I (W, s) = (W1, s1)" by (cases "chooseStep env I (W, s)")
  from Cons.prems have o: "occurs I (IR s)" by simp
  from st chooseStep_fst[of env I W s] have W1: "W1 =
     (if isaStoreInst I \<and> shouldInstrumentReadWriteFromAddress env (getPointerOperand I)
      then insert (getPointerOperand I) W else W)" by simp
  from st chooseStep_All[OF o, of env W] have A1: "AllLoadsAndStores s1 =
     AllLoadsAndStores s @ (if keep env I W then [I] else [])"
    and N1: "NumOmittedNonCaptured (stats s1) = NumOmittedNonCaptured (stats s)" by simp_all
  from st chooseStep_IR[of env I W s] Cons.prems
  have "\<forall>J \<in> set xs. occurs J (IR s1)" by (simp add: occurs_insertBefore)
  note ih = Cons.IH[OF this, of W1]
  have w: "W1 \<union> writes env xs = W \<union> writes env (I # xs)"
    unfolding W1 by (auto simp: writes_def)
  show ?case using ih st A1 N1 w W1 by simp
qed

lemma sched_subset: "set (sched env xs W) \<subseteq> set xs"
  by (induction xs arbitrary: W) auto

lemma sched_mem:
  "distinct (ys @ I # zs) \<Longrightarrow>
   (I \<in> set (sched env (ys @ I # zs) W)) = keep env I (W \<union> writes env ys)"
proof (induction ys arbitrary: W)
  case Nil
  then have "I \<notin> set zs" by simp
  with sched_subset[of env zs] have "\<And>W'. I \<notin> set (sched env zs W')" by blast
  then show ?case by (simp add: writes_def)
next
  case (Cons y ys)
  then have ne: "y \<noteq> I" and d: "distinct (ys @ I # zs)" by auto
  let ?W = "(if isaStoreInst y \<and> shouldInstrumentReadWriteFromAddress env (getPointerOperand y)
        then insert (getPointerOperand y) W else W)"
  have w: "?W \<union> writes env ys = W \<union> writes env (y # ys)"
    by (auto simp: writes_def)
  from Cons.IH[OF d, of ?W] ne w show ?case by auto
qed

lemma writes_rev [simp]: "writes env (rev xs) = writes env xs"
  by (simp add: writes_def)

lemma chooseInstructionsToInstrument_All:
  assumes "\<forall>I \<in> set (LocalLoadsAndStores s). occurs I (IR s)"
  shows "AllLoadsAndStores (chooseInstructionsToInstrument env s) =
           AllLoadsAndStores s @ sched env (rev (LocalLoadsAndStores s)) {}"
    and "NumOmittedNonCaptured (stats (chooseInstructionsToInstrument env s)) =
           NumOmittedNonCaptured (stats s)"
  using fold_chooseStep[of "rev (LocalLoadsAndStores s)" s env "{}"] assms
  by (simp_all add: chooseInstructionsToInstrument_def chooseLoop_def)

lemma scheduled_sched:
  assumes "\<forall>I \<in> set (LocalLoadsAndStores s). occurs I (IR s)"
  shows "scheduled env s = sched env (rev (LocalLoadsAndStores s)) {}"
  by (simp add: scheduled_def chooseInstructionsToInstrument_All[OF assms])

lemma writeSet_writes:
  assumes "\<forall>I \<in> set (LocalLoadsAndStores s). occurs I (IR s)"
  shows "writeSet env s = writes env (LocalLoadsAndStores s)"
  using fold_chooseStep[of "rev (LocalLoadsAndStores s)" s env "{}"] assms
  by (simp add: writeSet_def chooseLoop_def)

text \<open>
  The filter on a run \<open>Local\<close> of distinct loads and stores of the function: an
  instruction \<open>I\<close> of the run, with the instructions \<open>post\<close> after it in program order, is
  scheduled exactly when its address is to be instrumented and it is a store, or it is a
  load whose address no store of \<open>post\<close> writes and that does not point to constant data.
  Whether the underlying object is a stack allocation plays no part.
\<close>

lemma scheduled_iff:
  assumes "distinct (LocalLoadsAndStores s)" and "LocalLoadsAndStores s = pre @ I # post"
      and "\<forall>J \<in> set (LocalLoadsAndStores s). occurs J (IR s)"
  shows "(I \<in> set (scheduled env s)) = keep env I (writes env post)"
proof -
  from assms(2) have r: "rev (LocalLoadsAndStores s) = rev post @ I # rev pre" by simp
  from assms(1) have "distinct (rev (LocalLoadsAndStores s))" by simp
  then have d: "distinct (rev post @ I # rev pre)" unfolding r .
  from sched_mem[OF d, of env "{}"] show ?thesis
    by (simp add: scheduled_sched[OF assms(3)] r)
qed

lemmas run_eval =
  runOnFunction_def collect_def visitBlock_def visitInst_def
  chooseInstructionsToInstrument_def chooseLoop_def default_options_def Let_def
  sample_load_def sample_store_def sample_slot_store_def sample_global_def sample_slot_def
  sample_env_def insertBefore_def sameInst_def shouldInstrumentReadWriteFromAddress_def
  addrPointsToConstantData_def PointerMayBeCaptured_def printFor_def printVariablesCall_def
  startswith_def no_stats_def InsertRuntimeIgnores_def instrumentEntryExit_def
  EscapeEnumerator_def atExit_def instrumentLoadOrStore_def getMemoryAccessFuncIndex_def
  kNumberOfAccessSizes_def ctz_pow2[of 2, simplified]

text \<open>
  C1. The filter does what the claim says for stores to addresses that are to be
  instrumented (recorded in the write set, scheduled) and for loads (dropped when the
  address is excluded, shadowed by a later store or constant data), but not for stack
  allocations whose pointer is never captured. The test for them is made after the loop
  body has created the call of \<^verbatim>\<open>__tsan_print_variables\<close> that passes the address, so the
  capture analysis always answers that the pointer may be captured: the branch that
  counts \<open>NumOmittedNonCaptured\<close> and skips the access is never taken. In the sample
  function, whose stack slot no use captures, the store to the slot is scheduled with the
  store to the global, the load the store shadows is dropped, the counter stays 0, and
  the call that passes the address of the slot stands before the store; the pass over the
  function, race-checked, puts the probe \<open>TsanWrite 2\<close> of a 4-byte write before the
  store to the slot.
\<close>

theorem stack_slot_scheduled:
  "nonCapturedStack sample_stack_env (getPointerOperand sample_slot_store)
   \<and> AllLoadsAndStores (chooseInstructionsToInstrument sample_stack_env sample_segment)
       = [sample_slot_store, sample_store]
   \<and> sample_slot_store \<in> set (scheduled sample_stack_env sample_segment)
   \<and> NumOmittedNonCaptured (stats (chooseInstructionsToInstrument sample_stack_env
                                      sample_segment)) = 0
   \<and> IR (chooseInstructionsToInstrument sample_stack_env sample_segment) =
       [[printVariablesCall sample_stack_env 403 sample_global sample_load, sample_load,
         printVariablesCall sample_stack_env 391 sample_global sample_store, sample_store,
         printVariablesCall sample_stack_env 391 sample_slot sample_slot_store,
         sample_slot_store, ReturnInst]]
   \<and> runOnFunction sample_stack_env default_options sample_stack_function no_stats =
       Inr (sample_stack_function
              \<lparr>blocks :=
                 [[CallInst None TsanFuncEntry
                     [funcNameArg sample_stack_env sample_stack_function],
                   printFor sample_stack_env sample_load, sample_load,
                   printFor sample_stack_env sample_store,
                   CallInst None (TsanWrite 2)
                     [CreatePointerCast sample_global getInt8PtrTy,
                      CreateIntCast (ConstantInt 32 300) getInt8Ty False,
                      GlobalVariable ''.str.obj'' [] True getInt8PtrTy,
                      GlobalVariable ''.str.file'' [] True getInt8PtrTy],
                   sample_store,
                   printFor sample_stack_env sample_slot_store,
                   CallInst None (TsanWrite 2)
                     [CreatePointerCast sample_slot getInt8PtrTy,
                      CreateIntCast (ConstantInt 32 300) getInt8Ty False,
                      GlobalVariable ''.str.obj'' [] True getInt8PtrTy,
                      GlobalVariable ''.str.file'' [] True getInt8PtrTy],
                   sample_slot_store,
                   CallInst None TsanFuncExit
                     [funcNameArg sample_stack_env sample_stack_function],
                   ReturnInst]]\<rparr>,
            True,
            no_stats\<lparr>NumInstrumentedWrites := 2, NumOmittedReadsBeforeWrite := 1\<rparr>)"
proof -
  have o: "\<forall>I \<in> set (LocalLoadsAndStores sample_segment). occurs I (IR sample_segment)"
    by (simp add: sample_segment_def occurs_def sameInst_def sample_load_def sample_store_def
        sample_slot_store_def)
  have sh: "shouldInstrumentReadWriteFromAddress sample_stack_env sample_global"
    "shouldInstrumentReadWriteFromAddress sample_stack_env sample_slot"
    by (simp_all add: shouldInstrumentReadWriteFromAddress_def sample_stack_env_def
        sample_env_def startswith_def sample_global_def sample_slot_def)
  have sc: "sched sample_stack_env (rev (LocalLoadsAndStores sample_segment)) {}
              = [sample_slot_store, sample_store]"
    using sh
    by (simp add: sample_segment_def keep_def sample_load_def sample_store_def
        sample_slot_store_def)
  have a: "nonCapturedStack sample_stack_env (getPointerOperand sample_slot_store)"
    by (simp add: nonCapturedStack_def sample_stack_env_def sample_env_def sample_slot_def
        sample_slot_store_def)
  have b: "AllLoadsAndStores (chooseInstructionsToInstrument sample_stack_env sample_segment)
       = [sample_slot_store, sample_store]"
    using chooseInstructionsToInstrument_All(1)[OF o, of sample_stack_env] sc
    by (simp add: sample_segment_def)
  have c: "sample_slot_store \<in> set (scheduled sample_stack_env sample_segment)"
    using scheduled_sched[OF o, of sample_stack_env] sc by simp
  have d: "NumOmittedNonCaptured (stats (chooseInstructionsToInstrument sample_stack_env
                                      sample_segment)) = 0"
    using chooseInstructionsToInstrument_All(2)[OF o, of sample_stack_env]
    by (simp add: sample_segment_def no_stats_def)
  have e: "IR (chooseInstructionsToInstrument sample_stack_env sample_segment) =
       [[printVariablesCall sample_stack_env 403 sample_global sample_load, sample_load,
         printVariablesCall sample_stack_env 391 sample_global sample_store, sample_store,
         printVariablesCall sample_stack_env 391 sample_slot sample_slot_store,
         sample_slot_store, ReturnInst]]"
    by (simp add: chooseInstructionsToInstrument_IR sample_segment_def insertBefore_def
        sameInst_def printFor_def printVariablesCall_def sample_load_def sample_store_def
        sample_slot_store_def)
  have f: "runOnFunction sample_stack_env default_options sample_stack_function no_stats =
       Inr (sample_stack_function
              \<lparr>blocks :=
                 [[CallInst None TsanFuncEntry
                     [funcNameArg sample_stack_env sample_stack_function],
                   printFor sample_stack_env sample_load, sample_load,
                   printFor sample_stack_env sample_store,
                   CallInst None (TsanWrite 2)
                     [CreatePointerCast sample_global getInt8PtrTy,
                      CreateIntCast (ConstantInt 32 300) getInt8Ty False,
                      GlobalVariable ''.str.obj'' [] True getInt8PtrTy,
                      GlobalVariable ''.str.file'' [] True getInt8PtrTy],
                   sample_store,
                   printFor sample_stack_env sample_slot_store,
                   CallInst None (TsanWrite 2)
                     [CreatePointerCast sample_slot getInt8PtrTy,
                      CreateIntCast (ConstantInt 32 300) getInt8Ty False,
                      GlobalVariable ''.str.obj'' [] True getInt8PtrTy,
                      GlobalVariable ''.str.file'' [] True getInt8PtrTy],
                   sample_slot_store,
                   CallInst None TsanFuncExit
                     [funcNameArg sample_stack_env sample_stack_function],
                   ReturnInst]]\<rparr>,
            True,
            no_stats\<lparr>NumInstrumentedWrites := 2, NumOmittedReadsBeforeWrite := 1\<rparr>)"
    by (simp add: run_eval sample_stack_env_def sample_stack_function_def funcNameArg_def)
  show ?thesis
    by (intro conjI) (rule a b c d e f)+
qed

subsection \<open>Bulk-memory lowering\<close>

lemma instrumentMemIntrinsic_eq:
  "isaMemIntrinsic I \<Longrightarrow>
   instrumentMemIntrinsic env I =
     (False, \<lparr>created = [libraryCall env I], usesReplacedBy = None, erased = True\<rparr>)"
  by (cases I; simp) (rename_tac k a0 a1 a2, case_tac k; simp)

lemma concat_eraseFromParent:
  "concat (eraseFromParent I ir) = filter (\<lambda>x. \<not> sameInst I x) (concat ir)"
  by (induction ir) (simp_all add: eraseFromParent_def)

lemma applyEdit_replace:
  "applyEdit I \<lparr>created = new, usesReplacedBy = None, erased = True\<rparr> ir =
     map (\<lambda>b. concat (map (\<lambda>x. if sameInst I x then filter (\<lambda>y. \<not> sameInst I y) new else [x]) b)) ir"
proof -
  have "filter (\<lambda>x. \<not> sameInst I x) (concat (map (\<lambda>x. if sameInst I x then new @ [x] else [x]) b))
        = concat (map (\<lambda>x. if sameInst I x then filter (\<lambda>y. \<not> sameInst I y) new else [x]) b)" for b
    by (induction b) simp_all
  then show ?thesis
    by (simp add: applyEdit_def insertBefore_def eraseFromParent_def)
qed

lemma sameInst_None: "iid x = None \<Longrightarrow> \<not> sameInst I x"
  by (auto simp: sameInst_def)

lemma iid_libraryCall: "isaMemIntrinsic J \<Longrightarrow> iid (libraryCall env J) = None"
  by (cases J; simp) (rename_tac k a0 a1 a2, case_tac k; simp)

lemma sameInst_libraryCall [simp]: "isaMemIntrinsic J \<Longrightarrow> \<not> sameInst I (libraryCall env J)"
  by (simp add: sameInst_None iid_libraryCall)

lemma isaMemIntrinsic_libraryCall [simp]:
  "isaMemIntrinsic J \<Longrightarrow> \<not> isaMemIntrinsic (libraryCall env J)"
  by (cases J; simp) (rename_tac k a0 a1 a2, case_tac k; simp)

lemma lowerOne:
  assumes "isaMemIntrinsic I"
  shows "applyEdit I (snd (instrumentMemIntrinsic env I)) ir =
           map (map (\<lambda>x. if sameInst I x then libraryCall env I else x)) ir"
proof -
  have "concat (map (\<lambda>x. if sameInst I x then filter (\<lambda>y. \<not> sameInst I y) [libraryCall env I] else [x]) b)
        = map (\<lambda>x. if sameInst I x then libraryCall env I else x) b" for b
    using assms by (induction b) simp_all
  then show ?thesis
    using assms by (simp add: instrumentMemIntrinsic_eq applyEdit_replace del: filter.simps)
qed


lemma lowerMemIntrinsics_IR:
  assumes "\<forall>I \<in> set xs. isaMemIntrinsic I"
  shows "IR (lowerMemIntrinsics env xs s) = map (map (fold (lowered env) xs)) (IR s)"
  using assms
proof (induction xs arbitrary: s)
  case Nil
  then show ?case by (simp add: map_idI)
next
  case (Cons I xs)
  then have m: "isaMemIntrinsic I" and r: "\<forall>I \<in> set xs. isaMemIntrinsic I" by auto
  have "lowerMemIntrinsics env (I # xs) s =
          lowerMemIntrinsics env xs
            (s\<lparr>IR := applyEdit I (snd (instrumentMemIntrinsic env I)) (IR s),
               Res := (Res s \<or> fst (instrumentMemIntrinsic env I))\<rparr>)"
    by (simp split: prod.splits)
  then show ?case
    using Cons.IH[OF r] by (simp add: lowerOne[OF m] lowered_def[abs_def] comp_def)
qed

lemma fold_lowered_lib:
  assumes "iid x = None"
  shows "fold (lowered env) xs x = x"
  using assms by (induction xs) (simp_all add: lowered_def sameInst_None)

lemma fold_lowered:
  assumes "\<forall>I \<in> set xs. isaMemIntrinsic I"
  shows "fold (lowered env) xs x =
           (case find (\<lambda>I. sameInst I x) xs of None \<Rightarrow> x | Some I \<Rightarrow> libraryCall env I)"
  using assms
proof (induction xs arbitrary: x)
  case Nil
  then show ?case by simp
next
  case (Cons I xs)
  show ?case
  proof (cases "sameInst I x")
    case True
    from Cons.prems have "isaMemIntrinsic I" by simp
    then have "fold (lowered env) xs (libraryCall env I) = libraryCall env I"
      by (intro fold_lowered_lib iid_libraryCall)
    moreover from True have "lowered env I x = libraryCall env I" by (simp add: lowered_def)
    ultimately show ?thesis using True by simp
  next
    case False
    then have "lowered env I x = x" by (simp add: lowered_def)
    with False Cons show ?thesis by simp
  qed
qed

lemma find_SomeD: "find P xs = Some y \<Longrightarrow> y \<in> set xs \<and> P y"
  by (induction xs) (auto split: if_splits)

lemma find_same_self:
  assumes "x \<in> set xs" and "iid x \<noteq> None"
  shows "\<exists>I. find (\<lambda>I. sameInst I x) xs = Some I \<and> I \<in> set xs \<and> iid I = iid x"
proof -
  from assms have "\<exists>I \<in> set xs. sameInst I x" by (auto simp: sameInst_def)
  then obtain I where "find (\<lambda>I. sameInst I x) xs = Some I"
    by (cases "find (\<lambda>I. sameInst I x) xs") (auto simp: find_None_iff)
  moreover from this have "I \<in> set xs \<and> sameInst I x"
    by (rule find_SomeD)
  ultimately show ?thesis by (auto simp: sameInst_def)
qed

lemma isaMemIntrinsic_iid: "isaMemIntrinsic x \<Longrightarrow> iid x \<noteq> None"
  by (cases x) simp_all

lemma no_intrinsic_left:
  "filter isaMemIntrinsic (concat (lowerBulkMemory env ir)) = []"
proof -
  let ?xs = "filter isaMemIntrinsic (concat ir)"
  have all: "\<forall>I \<in> set ?xs. isaMemIntrinsic I" by simp
  have "\<not> isaMemIntrinsic (fold (lowered env) ?xs x)" if "x \<in> set (concat ir)" for x
  proof (cases "isaMemIntrinsic x")
    case True
    with that have "x \<in> set ?xs" by simp
    from find_same_self[OF this isaMemIntrinsic_iid[OF True]] obtain I where
      "find (\<lambda>I. sameInst I x) ?xs = Some I" "I \<in> set ?xs" by blast
    then show ?thesis by (simp add: fold_lowered[OF all])
  next
    case False
    show ?thesis
    proof (cases "find (\<lambda>I. sameInst I x) ?xs")
      case None
      with False show ?thesis by (simp add: fold_lowered[OF all])
    next
      case (Some I)
      from find_SomeD[OF this] have "isaMemIntrinsic I" by simp
      with Some show ?thesis by (simp add: fold_lowered[OF all])
    qed
  qed
  then have "\<forall>y \<in> set (concat (map (map (fold (lowered env) ?xs)) ir)). \<not> isaMemIntrinsic y"
    by auto
  then show ?thesis
    by (simp add: lowerBulkMemory_def lowerMemIntrinsics_IR[OF all] filter_empty_conv)
qed

lemma lowerBulkMemory_idem:
  "lowerBulkMemory env (lowerBulkMemory env ir) = lowerBulkMemory env ir"
proof -
  have "lowerBulkMemory env ir' = ir'" if "filter isaMemIntrinsic (concat ir') = []" for ir'
    using that by (simp add: lowerBulkMemory_def)
  from this[OF no_intrinsic_left] show ?thesis .
qed

lemma lowerBulkMemory_in_place:
  assumes "uniqueIds ir"
  shows "lowerBulkMemory env ir =
           map (map (\<lambda>x. if isaMemIntrinsic x then libraryCall env x else x)) ir"
proof -
  let ?xs = "filter isaMemIntrinsic (concat ir)"
  have all: "\<forall>I \<in> set ?xs. isaMemIntrinsic I" by simp
  have key: "fold (lowered env) ?xs x = (if isaMemIntrinsic x then libraryCall env x else x)"
    if x: "x \<in> set (concat ir)" for x
  proof (cases "isaMemIntrinsic x")
    case True
    with x have "x \<in> set ?xs" by simp
    from find_same_self[OF this isaMemIntrinsic_iid[OF True]] obtain I where
      I: "find (\<lambda>I. sameInst I x) ?xs = Some I" "I \<in> set ?xs" "iid I = iid x" by blast
    from I(2) have "I \<in> set (concat ir)" by simp
    with assms x isaMemIntrinsic_iid[OF True] I(3) have "I = x"
      unfolding uniqueIds_def by metis
    with I True show ?thesis by (simp add: fold_lowered[OF all])
  next
    case False
    have "find (\<lambda>I. sameInst I x) ?xs = None"
    proof (rule ccontr)
      assume "find (\<lambda>I. sameInst I x) ?xs \<noteq> None"
      then obtain I where "find (\<lambda>I. sameInst I x) ?xs = Some I" by auto
      from find_SomeD[OF this] have "I \<in> set ?xs" "sameInst I x"
        by simp_all
      then have "I \<in> set (concat ir)" "isaMemIntrinsic I" "iid I \<noteq> None" "iid I = iid x"
        by (auto simp: sameInst_def)
      with assms x have "I = x" unfolding uniqueIds_def by blast
      with \<open>isaMemIntrinsic I\<close> False show False by simp
    qed
    with False show ?thesis by (simp add: fold_lowered[OF all])
  qed
  have inner: "map (fold (lowered env) ?xs) b =
             map (\<lambda>x. if isaMemIntrinsic x then libraryCall env x else x) b"
    if b: "b \<in> set ir" for b
  proof (intro map_cong refl)
    fix x assume "x \<in> set b"
    with b have "x \<in> set (concat ir)" by auto
    then show "fold (lowered env) ?xs x = (if isaMemIntrinsic x then libraryCall env x else x)"
      by (rule key)
  qed
  have "map (map (fold (lowered env) ?xs)) ir =
             map (map (\<lambda>x. if isaMemIntrinsic x then libraryCall env x else x)) ir"
    by (rule map_cong[OF refl]) (rule inner)
  then show ?thesis
    by (simp add: lowerBulkMemory_def lowerMemIntrinsics_IR[OF all])
qed


text \<open>
  C7. Lowering a memory intrinsic returns false, creates the plain call of the
  corresponding library primitive (memset, memcpy, memmove) with the destination, the
  source or value and the length of the intrinsic, and erases the intrinsic. Lowering all
  the intrinsics of a function leaves no memory intrinsic, so lowering again changes
  nothing; and when no two instructions share an identifier it replaces each intrinsic,
  at its place, by its call and leaves every other instruction as it is.
\<close>

theorem bulk_memory_lowering:
  "(isaMemIntrinsic I \<longrightarrow>
      instrumentMemIntrinsic env I =
        (False, \<lparr>created = [libraryCall env I], usesReplacedBy = None, erased = True\<rparr>))
   \<and> filter isaMemIntrinsic (concat (lowerBulkMemory env ir)) = []
   \<and> lowerBulkMemory env (lowerBulkMemory env ir) = lowerBulkMemory env ir
   \<and> (uniqueIds ir \<longrightarrow>
        lowerBulkMemory env ir =
          map (map (\<lambda>x. if isaMemIntrinsic x then libraryCall env x else x)) ir)"
  using instrumentMemIntrinsic_eq[of I env] no_intrinsic_left[of env ir]
    lowerBulkMemory_idem[of env ir] lowerBulkMemory_in_place[of ir env]
  by blast

theorem bulk_memory_lowering_witness:
  "isaMemIntrinsic (MemIntrinsic 1 MemSet (Argument 0 getInt8PtrTy) (ConstantInt 8 0)
                      (ConstantInt 64 16))
   \<and> instrumentMemIntrinsic sample_env
         (MemIntrinsic 1 MemSet (Argument 0 getInt8PtrTy) (ConstantInt 8 0) (ConstantInt 64 16))
       = (False,
          \<lparr>created =
             [CallInst None MemsetFn
                [CreatePointerCast (Argument 0 getInt8PtrTy) getInt8PtrTy,
                 CreateIntCast (ConstantInt 8 0) getInt32Ty False,
                 CreateIntCast (ConstantInt 64 16) (IntegerTy 32) False]],
           usesReplacedBy = None, erased = True\<rparr>)
   \<and> uniqueIds
         [[MemIntrinsic 1 MemSet (Argument 0 getInt8PtrTy) (ConstantInt 8 0) (ConstantInt 64 16),
           OtherInst,
           MemIntrinsic 2 MemMove (Argument 0 getInt8PtrTy) (Argument 1 getInt8PtrTy)
             (ConstantInt 64 16),
           ReturnInst]]
   \<and> lowerBulkMemory sample_env
         [[MemIntrinsic 1 MemSet (Argument 0 getInt8PtrTy) (ConstantInt 8 0) (ConstantInt 64 16),
           OtherInst,
           MemIntrinsic 2 MemMove (Argument 0 getInt8PtrTy) (Argument 1 getInt8PtrTy)
             (ConstantInt 64 16),
           ReturnInst]]
       = [[CallInst None MemsetFn
             [CreatePointerCast (Argument 0 getInt8PtrTy) getInt8PtrTy,
              CreateIntCast (ConstantInt 8 0) getInt32Ty False,
              CreateIntCast (ConstantInt 64 16) (IntegerTy 32) False],
           OtherInst,
           CallInst None MemmoveFn
             [CreatePointerCast (Argument 0 getInt8PtrTy) getInt8PtrTy,
              CreatePointerCast (Argument 1 getInt8PtrTy) getInt8PtrTy,
              CreateIntCast (ConstantInt 64 16) (IntegerTy 32) False],
           ReturnInst]]"
proof -
  let ?S = "MemIntrinsic 1 MemSet (Argument 0 getInt8PtrTy) (ConstantInt 8 0) (ConstantInt 64 16)"
  let ?M = "MemIntrinsic 2 MemMove (Argument 0 getInt8PtrTy) (Argument 1 getInt8PtrTy)
             (ConstantInt 64 16)"
  let ?ir = "[[?S, OtherInst, ?M, ReturnInst]]"
  have m: "isaMemIntrinsic ?S" by simp
  have u: "uniqueIds ?ir" by (simp add: uniqueIds_def)
  note t = bulk_memory_lowering[of ?S sample_env ?ir]
  from t m have a: "instrumentMemIntrinsic sample_env ?S =
        (False, \<lparr>created = [libraryCall sample_env ?S], usesReplacedBy = None, erased = True\<rparr>)"
    by blast
  from t u have b: "lowerBulkMemory sample_env ?ir =
          map (map (\<lambda>x. if isaMemIntrinsic x then libraryCall sample_env x else x)) ?ir"
    by blast
  have i: "IntptrTy sample_env = IntegerTy 32" by (simp add: sample_env_def)
  have a': "instrumentMemIntrinsic sample_env ?S =
      (False,
          \<lparr>created =
             [CallInst None MemsetFn
                [CreatePointerCast (Argument 0 getInt8PtrTy) getInt8PtrTy,
                 CreateIntCast (ConstantInt 8 0) getInt32Ty False,
                 CreateIntCast (ConstantInt 64 16) (IntegerTy 32) False]],
           usesReplacedBy = None, erased = True\<rparr>)"
    unfolding a by (simp add: i)
  have b': "lowerBulkMemory sample_env ?ir =
      [[CallInst None MemsetFn
             [CreatePointerCast (Argument 0 getInt8PtrTy) getInt8PtrTy,
              CreateIntCast (ConstantInt 8 0) getInt32Ty False,
              CreateIntCast (ConstantInt 64 16) (IntegerTy 32) False],
           OtherInst,
           CallInst None MemmoveFn
             [CreatePointerCast (Argument 0 getInt8PtrTy) getInt8PtrTy,
              CreatePointerCast (Argument 1 getInt8PtrTy) getInt8PtrTy,
              CreateIntCast (ConstantInt 64 16) (IntegerTy 32) False],
           ReturnInst]]"
    unfolding b by (simp add: i)
  show ?thesis
    by (intro conjI) (rule m a' u b')+
qed

subsection \<open>Atomic compare-exchange\<close>

lemma wellTyped_cases:
  assumes "wellTyped env T N v"
  obtains x where "T = IntegerTy N" "v = IntV N x" "x < 2 ^ N"
  | t a b where "T = PointerTy t a" "v = PtrV b" "b < 2 ^ getPointerSizeInBits env a"
      "getPointerSizeInBits env a \<le> N"
  using assms by (cases "(env, T, N, v)" rule: wellTyped.cases) auto

text \<open>
  C4. For a compare-exchange of a supported size class \<open>k\<close>, whose operands have the
  integer type of that size or a pointer type, atomic lowering creates the call of the
  CAS probe with the pointer, the expected and the new value cast to the integer type and
  the two orderings, erases the instruction, and replaces its uses by the pair built from
  the value \<open>C\<close> the probe returns: the old value is \<open>C\<close>, cast back through
  int-to-pointer when the operands are pointers, and the success flag is the comparison of
  \<open>C\<close> with the expected operand as an integer. When the probe returns the value the
  location held, this pair is the result of the compare-exchange that was replaced, whether
  the comparison succeeds or fails.
\<close>

theorem cas_result_preserved:
  assumes idx: "getMemoryAccessFuncIndex env Addr st = Inr (int k, st1)"
      and so: "createOrdering so = Inr sov" and fo: "createOrdering fo = Inr fov"
      and ty: "getType cmp = T" "getType newval = T"
      and wo: "wellTyped env T (BitSize k) old"
      and we: "wellTyped env T (BitSize k) expected"
      and ev: "eval env rho cmp = expected"
      and pr: "rho (ProbeResult i (IntegerTy (BitSize k))) = asInteger (BitSize k) old"
  shows "\<exists>res.
           instrumentAtomic env (AtomicCmpXchgInst i Addr cmp newval so fo) st =
             Inr (True,
                  \<lparr>created =
                     [CallInst None (TsanAtomicCAS k)
                        [CreatePointerCast Addr (PointerTy (IntegerTy (BitSize k)) 0),
                         CreateBitOrPointerCast cmp (IntegerTy (BitSize k)),
                         CreateBitOrPointerCast newval (IntegerTy (BitSize k)),
                         sov, fov]],
                   usesReplacedBy = Some res, erased = True\<rparr>,
                  st1)
           \<and> res =
               CreateInsertValue
                 (CreateInsertValue (UndefValue (StructTy [T, IntegerTy 1]))
                    (if IntegerTy (BitSize k) \<noteq> T
                     then CreateIntToPtr (ProbeResult i (IntegerTy (BitSize k))) T
                     else ProbeResult i (IntegerTy (BitSize k))) 0)
                 (CreateICmpEQ (ProbeResult i (IntegerTy (BitSize k)))
                    (CreateBitOrPointerCast cmp (IntegerTy (BitSize k)))) 1
           \<and> eval env rho res = cmpxchgResult old expected"
proof -
  let ?N = "BitSize k"
  let ?C = "ProbeResult i (IntegerTy ?N)"
  let ?res = "CreateInsertValue
                 (CreateInsertValue (UndefValue (StructTy [T, IntegerTy 1]))
                    (if IntegerTy ?N \<noteq> T then CreateIntToPtr ?C T else ?C) 0)
                 (CreateICmpEQ ?C (CreateBitOrPointerCast cmp (IntegerTy ?N))) 1"
  have a: "instrumentAtomic env (AtomicCmpXchgInst i Addr cmp newval so fo) st =
             Inr (True,
                  \<lparr>created =
                     [CallInst None (TsanAtomicCAS k)
                        [CreatePointerCast Addr (PointerTy (IntegerTy ?N) 0),
                         CreateBitOrPointerCast cmp (IntegerTy ?N),
                         CreateBitOrPointerCast newval (IntegerTy ?N),
                         sov, fov]],
                   usesReplacedBy = Some ?res, erased = True\<rparr>,
                  st1)"
    using idx so fo ty by (simp add: Let_def getIntNTy_def getPointerTo_def)
  have e: "eval env rho ?res = cmpxchgResult old expected"
  proof -
    from wo show ?thesis
    proof (cases rule: wellTyped_cases)
      case (1 x)
      with we obtain y where y: "expected = IntV ?N y" by (auto elim: wellTyped_cases)
      from 1 y ev pr ty show ?thesis
        by (simp add: cmpxchgResult_def)
    next
      case (2 t a b)
      with we obtain c where c: "expected = PtrV c" "c < 2 ^ getPointerSizeInBits env a"
        by (auto elim: wellTyped_cases)
      have "(2::nat) ^ getPointerSizeInBits env a \<le> 2 ^ ?N"
        using 2(4) by (intro power_increasing) simp_all
      with c(2) have cN: "c < 2 ^ ?N" by (rule less_le_trans)
      from 2 c cN ev pr ty show ?thesis
        by (simp add: cmpxchgResult_def)
    qed
  qed
  from a e show ?thesis by blast
qed


lemma sample_index:
  "getMemoryAccessFuncIndex sample_env (Argument 0 (PointerTy (PointerTy (IntegerTy 8) 0) 0)) st
     = Inr (int 2, st)"
  "getMemoryAccessFuncIndex sample_env (Argument 0 (PointerTy (IntegerTy 32) 0)) st
     = Inr (int 2, st)"
  by (simp_all add: getMemoryAccessFuncIndex_def sample_env_def Let_def kNumberOfAccessSizes_def
      ctz_pow2[of 2, simplified])

theorem cas_result_preserved_witness:
  "eval sample_env sample_rho
     (CreateInsertValue
        (CreateInsertValue (UndefValue (StructTy [PointerTy (IntegerTy 8) 0, IntegerTy 1]))
           (CreateIntToPtr (ProbeResult 5 (IntegerTy 32)) (PointerTy (IntegerTy 8) 0)) 0)
        (CreateICmpEQ (ProbeResult 5 (IntegerTy 32))
           (CreateBitOrPointerCast (Argument 1 (PointerTy (IntegerTy 8) 0)) (IntegerTy 32))) 1)
     = AggV [PtrV 4096, IntV 1 1]
   \<and> cmpxchgResult (PtrV 4096) (PtrV 4096) = AggV [PtrV 4096, IntV 1 1]
   \<and> eval sample_env sample_rho
     (CreateInsertValue
        (CreateInsertValue (UndefValue (StructTy [IntegerTy 32, IntegerTy 1]))
           (ProbeResult 6 (IntegerTy 32)) 0)
        (CreateICmpEQ (ProbeResult 6 (IntegerTy 32))
           (CreateBitOrPointerCast (ConstantInt 32 1) (IntegerTy 32))) 1)
     = AggV [IntV 32 7, IntV 1 0]
   \<and> cmpxchgResult (IntV 32 7) (IntV 32 1) = AggV [IntV 32 7, IntV 1 0]"
proof -
  let ?T = "PointerTy (IntegerTy 8) 0"
  have b: "BitSize 2 = 32" by (simp add: BitSize_def ByteSize_def)
  have o: "createOrdering SequentiallyConsistent = Inr (getInt32 5)"
          "createOrdering Monotonic = Inr (getInt32 0)" by simp_all
  have p1: "wellTyped sample_env ?T (BitSize 2) (PtrV 4096)"
    by (simp add: b sample_env_def)
  have p2: "eval sample_env sample_rho (Argument 1 ?T) = PtrV 4096"
    by (simp add: sample_rho_def)
  have p3: "sample_rho (ProbeResult 5 (IntegerTy (BitSize 2))) = asInteger (BitSize 2) (PtrV 4096)"
    by (simp add: b sample_rho_def)
  from cas_result_preserved[OF sample_index(1) o(1) o(2) _ _ p1 p1 p2 p3,
      of "Argument 2 ?T" no_stats]
  have r1: "eval sample_env sample_rho
     (CreateInsertValue
        (CreateInsertValue (UndefValue (StructTy [?T, IntegerTy 1]))
           (CreateIntToPtr (ProbeResult 5 (IntegerTy 32)) ?T) 0)
        (CreateICmpEQ (ProbeResult 5 (IntegerTy 32))
           (CreateBitOrPointerCast (Argument 1 ?T) (IntegerTy 32))) 1)
     = cmpxchgResult (PtrV 4096) (PtrV 4096)"
    by (auto simp: b)
  have q1: "wellTyped sample_env (IntegerTy 32) (BitSize 2) (IntV 32 7)"
           "wellTyped sample_env (IntegerTy 32) (BitSize 2) (IntV 32 1)"
    by (simp_all add: b)
  have q2: "eval sample_env sample_rho (ConstantInt 32 1) = IntV 32 1" by simp
  have q3: "sample_rho (ProbeResult 6 (IntegerTy (BitSize 2))) = asInteger (BitSize 2) (IntV 32 7)"
    by (simp add: b sample_rho_def)
  from cas_result_preserved[OF sample_index(2) o(1) o(2) _ _ q1(1) q1(2) q2 q3,
      of "ConstantInt 32 2" no_stats]
  have r2: "eval sample_env sample_rho
     (CreateInsertValue
        (CreateInsertValue (UndefValue (StructTy [IntegerTy 32, IntegerTy 1]))
           (ProbeResult 6 (IntegerTy 32)) 0)
        (CreateICmpEQ (ProbeResult 6 (IntegerTy 32))
           (CreateBitOrPointerCast (ConstantInt 32 1) (IntegerTy 32))) 1)
     = cmpxchgResult (IntV 32 7) (IntV 32 1)"
    by (auto simp: b)
  have c1: "cmpxchgResult (PtrV 4096) (PtrV 4096) = AggV [PtrV 4096, IntV 1 1]"
    and c2: "cmpxchgResult (IntV 32 7) (IntV 32 1) = AggV [IntV 32 7, IntV 1 0]"
    by (simp_all add: cmpxchgResult_def)
  show ?thesis
    using r1 r2 c1 c2 by (simp only: simp_thms)
qed

subsection \<open>Edits, block by block\<close>

lemma iid_substInst [simp]: "iid (substInst i n x) = iid x"
  by (cases x) simp_all

lemma iid_usesSubst [simp]: "iid (usesSubst I r x) = iid x"
  by (simp add: usesSubst_def split: option.splits)

lemma sameInst_usesSubst [simp]: "sameInst I (usesSubst J r x) = sameInst I x"
  by (simp add: sameInst_def)

lemma replaceAllUsesWithin_map: "replaceAllUsesWithin I r xs = map (usesSubst I r) xs"
proof -
  have "usesSubst I r x = x" if "iid I = None \<or> r = None" for x
    using that by (auto simp: usesSubst_def split: option.splits)
  then have "map (usesSubst I r) xs = xs" if "iid I = None \<or> r = None"
    using that by (simp add: map_idI)
  moreover have "map (usesSubst I r) xs = map (substInst i n) xs"
    if "iid I = Some i" "r = Some n" for i n
    using that by (simp add: usesSubst_def)
  ultimately show ?thesis
    by (cases "iid I"; cases r) (simp_all add: replaceAllUsesWithin_def)
qed

lemma applyEdit_rewrite:
  assumes "\<forall>y \<in> set (created e). iid y = None"
  shows "applyEdit I e ir = map (rewriteBlock I e) ir"
proof -
  let ?s = "usesSubst I (usesReplacedBy e)"
  let ?f = "\<lambda>x. if sameInst I x then created e @ [x] else [x]"
  have nc: "filter (\<lambda>x. \<not> sameInst I x) (map ?s (created e)) = map ?s (created e)"
    using assms by (simp add: sameInst_None)
  have m: "map ?s (concat (map ?f b)) =
           concat (map (\<lambda>x. if sameInst I x then map ?s (created e) @ [?s x] else [?s x]) b)" for b
    by (induction b) simp_all
  have f: "filter (\<lambda>x. \<not> sameInst I x)
             (concat (map (\<lambda>x. if sameInst I x then map ?s (created e) @ [?s x] else [?s x]) b)) =
           concat (map (\<lambda>x. if sameInst I x then map ?s (created e) else [?s x]) b)" for b
    using nc by (induction b) simp_all
  have "(if erased e then filter (\<lambda>x. \<not> sameInst I x) (map ?s (concat (map ?f b)))
         else map ?s (concat (map ?f b))) = rewriteBlock I e b" for b
    unfolding m by (cases "erased e") (simp_all only: f rewriteBlock_def if_True if_False append_Nil2)
  then show ?thesis
    by (cases "erased e")
       (simp_all add: applyEdit_def insertBefore_def replaceAllUsesWith_def eraseFromParent_def
          replaceAllUsesWithin_map)
qed

lemma insertBefore_rewrite:
  "insertBefore I new ir =
     map (rewriteBlock I \<lparr>created = new, usesReplacedBy = None, erased = False\<rparr>) ir"
proof -
  have "usesSubst I None x = x" for x
    by (simp add: usesSubst_def split: option.splits)
  then show ?thesis
    by (simp add: insertBefore_def rewriteBlock_def map_idI cong: if_cong)
qed

lemma isEscape_iid: "isEscape x \<Longrightarrow> iid x = None"
  by (cases x) simp_all

lemma isEscape_substInst [simp]: "isEscape (substInst i n x) = isEscape x"
  by (cases x) simp_all

lemma isEscape_usesSubst [simp]: "isEscape (usesSubst I r x) = isEscape x"
  by (simp add: usesSubst_def split: option.splits)

lemma isExit_rewriteBlock:
  assumes "\<forall>y \<in> set (created e). \<not> isEscape y"
      and "erased e \<longrightarrow> created e \<noteq> []"
  shows "isExit (rewriteBlock I e b) = isExit b"
proof (cases b rule: rev_cases)
  case Nil
  then show ?thesis by (simp add: rewriteBlock_def isExit_def)
next
  case (snoc ys l)
  let ?s = "usesSubst I (usesReplacedBy e)"
  let ?g = "\<lambda>x. if sameInst I x
                        then map ?s (created e) @ (if erased e then [] else [?s x])
                        else [?s x]"
  have r: "rewriteBlock I e b = concat (map ?g ys) @ ?g l"
    by (simp add: snoc rewriteBlock_def)
  show ?thesis
  proof (cases "sameInst I l")
    case False
    then have "?g l = [?s l]" by simp
    with r show ?thesis by (simp add: isExit_def snoc)
  next
    case True
    then have nl: "\<not> isEscape l" using isEscape_iid[of l] by (auto simp: sameInst_def)
    show ?thesis
    proof (cases "erased e")
      case False
      with True have "?g l = map ?s (created e) @ [?s l]" by simp
      with r show ?thesis by (simp add: isExit_def snoc)
    next
      case e: True
      with assms(2) have ne: "created e \<noteq> []" by simp
      from True e have g: "?g l = map ?s (created e)" by simp
      from ne have "last (map ?s (created e)) = ?s (last (created e))" by (simp add: last_map)
      moreover from ne assms(1) have "\<not> isEscape (last (created e))" by simp
      ultimately have "\<not> isEscape (last (map ?s (created e)))" by simp
      with r g ne nl show ?thesis by (simp add: isExit_def snoc)
    qed
  qed
qed

lemma filter_rewriteBlock_length:
  assumes P1: "\<And>x. P x \<Longrightarrow> iid x = None"
      and P2: "\<And>x. P (usesSubst I (usesReplacedBy e) x) = P x"
      and nP: "\<forall>y \<in> set (created e). \<not> P y"
  shows "length (filter P (rewriteBlock I e b)) = length (filter P b)"
proof -
  let ?s = "usesSubst I (usesReplacedBy e)"
  have c: "filter P (map ?s (created e)) = []"
    using nP P2 by (simp add: filter_empty_conv)
  have s: "sameInst I x \<Longrightarrow> \<not> P x" for x
    using P1[of x] by (auto simp: sameInst_def)
  show ?thesis
    by (induction b) (simp_all add: rewriteBlock_def c s P2)
qed

subsection \<open>What the lowerings keep\<close>

lemma loweringCall_cases:
  assumes "loweringCall y"
  obtains f args where "y = CallInst None f args" "isLoweringCallee f"
  using assms by (cases y rule: loweringCall.cases) auto

lemma loweringCall_props:
  assumes "loweringCall y"
  shows "iid y = None" "\<not> isEscape y" "\<not> mayThrowCall y" "\<not> isPrintProbe y"
  using assms by (auto elim!: loweringCall_cases) (case_tac f; simp)+

lemma stable_isProbeCall:
  "\<not> isLoweringCallee f \<Longrightarrow> calleeDoesNotThrow f \<Longrightarrow> stable (isProbeCall f)"
  unfolding stable_def
proof (intro conjI allI impI)
  fix x assume "isProbeCall f x" then show "iid x = None"
    by (cases x; simp) (rename_tac io g args, case_tac io; simp)
next
  fix i n x show "isProbeCall f (substInst i n x) = isProbeCall f x"
    by (cases x; simp) (rename_tac io g args, case_tac io; simp)
next
  fix x assume "calleeDoesNotThrow f" "mayThrowCall x"
  then show "isProbeCall f (changeToInvoke x) = isProbeCall f x"
    by (cases x; simp) (rename_tac io g args, case_tac io; auto)
next
  fix y assume "\<not> isLoweringCallee f" "loweringCall y"
  then show "\<not> isProbeCall f y" by (auto elim!: loweringCall_cases)
qed

lemma created_instrumentLoadOrStore:
  assumes "instrumentLoadOrStore env I st = Inr (r, new, st')"
  shows "(\<forall>y \<in> set new. loweringCall y) \<and> (\<not> r \<longrightarrow> new = [])"
  using assms
  by (auto simp: instrumentLoadOrStore_def Let_def split: if_splits sum.splits)

lemma TsanAtomicRMW_Some: "TsanAtomicRMW op k = Some F \<Longrightarrow> F = TsanAtomicRMWFn op k"
  by (auto simp: TsanAtomicRMW_def split: option.splits)

lemma created_instrumentAtomic:
  assumes "instrumentAtomic env I st = Inr (r, e, st')"
  shows "(\<forall>y \<in> set (created e). loweringCall y) \<and> (erased e \<longrightarrow> created e \<noteq> [])
         \<and> (\<not> r \<longrightarrow> e = no_edit)"
proof (cases I)
  case (LoadInst i p ord sc al vt)
  with assms show ?thesis
    by (auto simp: Let_def no_edit_def split: if_splits sum.splits)
next
  case (StoreInst i v p ord sc al vt)
  with assms show ?thesis
    by (auto simp: Let_def no_edit_def split: if_splits sum.splits)
next
  case (AtomicRMWInst i op p v ord)
  with assms show ?thesis
    by (auto simp: Let_def no_edit_def dest!: TsanAtomicRMW_Some
        split: if_splits sum.splits option.splits)
next
  case (AtomicCmpXchgInst i p c n so fo)
  with assms show ?thesis
    by (auto simp: Let_def no_edit_def split: if_splits sum.splits)
next
  case (FenceInst i ord sc)
  with assms show ?thesis
    by (auto simp: Let_def no_edit_def split: if_splits sum.splits)
qed (use assms in \<open>auto simp: no_edit_def\<close>)

lemma created_instrumentMemIntrinsic:
  "(\<forall>y \<in> set (created (snd (instrumentMemIntrinsic env I))). loweringCall y)
   \<and> (erased (snd (instrumentMemIntrinsic env I))
        \<longrightarrow> created (snd (instrumentMemIntrinsic env I)) \<noteq> [])
   \<and> usesReplacedBy (snd (instrumentMemIntrinsic env I)) = None
   \<and> \<not> fst (instrumentMemIntrinsic env I)"
proof (cases "isaMemIntrinsic I")
  case True
  then obtain i k a0 a1 a2 where "I = MemIntrinsic i k a0 a1 a2" by (cases I) auto
  then show ?thesis by (cases k) simp_all
next
  case False
  then have "instrumentMemIntrinsic env I = (False, no_edit)" by (cases I) simp_all
  then show ?thesis by simp
qed

lemma cnt_map:
  assumes "\<And>b. length (filter P (g b)) = length (filter P b)"
  shows "cnt P (map g ir) = cnt P ir"
  using assms by (induction ir) (simp_all add: cnt_def)

lemma P_usesSubst:
  assumes "\<forall>i n x. P (substInst i n x) = P x"
  shows "P (usesSubst I r x) = P x"
  using assms by (simp add: usesSubst_def split: option.splits)

lemma rewrite_preserves:
  assumes P1: "\<forall>x. P x \<longrightarrow> iid x = None"
      and P2: "\<forall>i n x. P (substInst i n x) = P x"
      and cr: "\<forall>y \<in> set (created e). \<not> isEscape y \<and> \<not> P y"
      and er: "erased e \<longrightarrow> created e \<noteq> []"
  shows "map isExit (map (rewriteBlock I e) ir) = map isExit ir
         \<and> cnt P (map (rewriteBlock I e) ir) = cnt P ir"
proof -
  have "isExit (rewriteBlock I e b) = isExit b" for b
    using cr er by (intro isExit_rewriteBlock) auto
  moreover have "length (filter P (rewriteBlock I e b)) = length (filter P b)" for b
    using P1 P_usesSubst[OF P2] cr by (intro filter_rewriteBlock_length) auto
  ultimately show ?thesis by (simp add: cnt_map)
qed

lemma sameShape_refl [simp]: "sameShape P ir ir"
  by (simp add: sameShape_def)

lemma sameShape_trans: "sameShape P a b \<Longrightarrow> sameShape P b c \<Longrightarrow> sameShape P a c"
  by (simp add: sameShape_def)

lemma sameShape_applyEdit:
  assumes "stable P" and "\<forall>y \<in> set (created e). loweringCall y"
      and "erased e \<longrightarrow> created e \<noteq> []"
  shows "sameShape P ir (applyEdit I e ir)"
proof -
  from assms(2) have n: "\<forall>y \<in> set (created e). iid y = None"
    by (auto dest: loweringCall_props)
  from assms(1,2) have c: "\<forall>y \<in> set (created e). \<not> isEscape y \<and> \<not> P y"
    by (auto simp: stable_def dest: loweringCall_props)
  from assms(1) have P1: "\<forall>x. P x \<longrightarrow> iid x = None"
    and P2: "\<forall>i n x. P (substInst i n x) = P x" by (auto simp: stable_def)
  show ?thesis
    unfolding sameShape_def applyEdit_rewrite[OF n]
    using rewrite_preserves[OF P1 P2 c assms(3)] by simp
qed

lemma sameShape_insertBefore:
  assumes "stable P" and "\<forall>y \<in> set new. loweringCall y"
  shows "sameShape P ir (insertBefore I new ir)"
proof -
  from assms(1,2) have c: "\<forall>y \<in> set (created \<lparr>created = new, usesReplacedBy = None, erased = False\<rparr>).
      \<not> isEscape y \<and> \<not> P y"
    by (auto simp: stable_def dest: loweringCall_props)
  from assms(1) have P1: "\<forall>x. P x \<longrightarrow> iid x = None"
    and P2: "\<forall>i n x. P (substInst i n x) = P x" by (auto simp: stable_def)
  show ?thesis
    unfolding sameShape_def insertBefore_rewrite
    using rewrite_preserves[OF P1 P2 c] by simp
qed

lemma lowerLoadsAndStores_props:
  assumes "stable P" and "lowerLoadsAndStores env xs s = Inr s'"
  shows "sameShape P (IR s) (IR s') \<and> HasCalls s' = HasCalls s
         \<and> MemIntrinCalls s' = MemIntrinCalls s \<and> AtomicAccesses s' = AtomicAccesses s
         \<and> (Res s \<longrightarrow> Res s') \<and> (\<not> Res s' \<longrightarrow> IR s' = IR s)"
  using assms(2)
proof (induction xs arbitrary: s)
  case Nil
  then show ?case by simp
next
  case (Cons I xs)
  from Cons.prems obtain r new st where
    i: "instrumentLoadOrStore env I (stats s) = Inr (r, new, st)"
    and l: "lowerLoadsAndStores env xs
              (s\<lparr>IR := insertBefore I new (IR s), Res := (Res s \<or> r), stats := st\<rparr>) = Inr s'"
    by (auto split: sum.splits)
  note c = created_instrumentLoadOrStore[OF i]
  note ih = Cons.IH[OF l]
  from c have sh: "sameShape P (IR s) (insertBefore I new (IR s))"
    using assms(1) by (intro sameShape_insertBefore) auto
  from ih sh have "sameShape P (IR s) (IR s')" by (auto intro: sameShape_trans)
  moreover have "IR s' = IR s" if "\<not> Res s'"
  proof -
    from ih that have "\<not> r" and e: "IR s' = insertBefore I new (IR s)" by auto
    with c show ?thesis by simp
  qed
  ultimately show ?case using ih by auto
qed

lemma lowerAtomics_props:
  assumes "stable P" and "lowerAtomics env xs s = Inr s'"
  shows "sameShape P (IR s) (IR s') \<and> HasCalls s' = HasCalls s
         \<and> length (MemIntrinCalls s') = length (MemIntrinCalls s)
         \<and> (Res s \<longrightarrow> Res s') \<and> (\<not> Res s' \<longrightarrow> IR s' = IR s)"
  using assms(2)
proof (induction xs arbitrary: s rule: length_induct)
  case (1 xs)
  show ?case
  proof (cases xs)
    case Nil
    with 1 show ?thesis by simp
  next
    case (Cons I rest)
    from 1(2) Cons obtain r e st where
      i: "instrumentAtomic env I (stats s) = Inr (r, e, st)"
      and l: "lowerAtomics env (replaceAllUsesWithin I (usesReplacedBy e) rest)
            (s\<lparr>IR := applyEdit I e (IR s),
               MemIntrinCalls := replaceAllUsesWithin I (usesReplacedBy e) (MemIntrinCalls s),
               Res := (Res s \<or> r), stats := st\<rparr>) = Inr s'"
      by (auto split: sum.splits)
    note c = created_instrumentAtomic[OF i]
    have len: "length (replaceAllUsesWithin I (usesReplacedBy e) rest) < length xs"
      by (simp add: Cons replaceAllUsesWithin_map)
    note ih = 1(1)[rule_format, OF len l]
    from c have sh: "sameShape P (IR s) (applyEdit I e (IR s))"
      using assms(1) by (intro sameShape_applyEdit) auto
    from ih sh have "sameShape P (IR s) (IR s')" by (auto intro: sameShape_trans)
    moreover have "IR s' = IR s" if "\<not> Res s'"
    proof -
      from ih that have "\<not> r" and e: "IR s' = applyEdit I e (IR s)" by auto
      with c show ?thesis by simp
    qed
    ultimately show ?thesis using ih by (auto simp: replaceAllUsesWithin_map)
  qed
qed

lemma lowerMemIntrinsics_props:
  assumes "stable P"
  shows "sameShape P (IR s) (IR (lowerMemIntrinsics env xs s))
         \<and> HasCalls (lowerMemIntrinsics env xs s) = HasCalls s
         \<and> Res (lowerMemIntrinsics env xs s) = Res s
         \<and> (xs = [] \<longrightarrow> IR (lowerMemIntrinsics env xs s) = IR s)"
proof (induction xs arbitrary: s)
  case Nil
  then show ?case by simp
next
  case (Cons I xs)
  let ?e = "snd (instrumentMemIntrinsic env I)"
  let ?s1 = "s\<lparr>IR := applyEdit I ?e (IR s), Res := (Res s \<or> fst (instrumentMemIntrinsic env I))\<rparr>"
  have st: "lowerMemIntrinsics env (I # xs) s = lowerMemIntrinsics env xs ?s1"
    by (simp split: prod.splits)
  note c = created_instrumentMemIntrinsic[of env I]
  from c have sh: "sameShape P (IR s) (applyEdit I ?e (IR s))"
    using assms by (intro sameShape_applyEdit) auto
  from Cons.IH[of ?s1] sh c show ?case
    unfolding st by (auto intro: sameShape_trans)
qed

subsection \<open>What the traversal keeps\<close>

lemma printFor_props:
  "iid (printFor env I) = None" "\<not> isEscape (printFor env I)" "isPrintProbe (printFor env I)"
  "mayThrowCall (printFor env I)"
  by (simp_all add: printFor_def printVariablesCall_def)

lemma sameShape_print:
  assumes "stable P" and "\<forall>y. isPrintProbe y \<longrightarrow> \<not> P y"
  shows "sameShape P ir (insertBefore I [printFor env I] ir)"
proof -
  from assms(2) have c: "\<forall>y \<in> set (created \<lparr>created = [printFor env I], usesReplacedBy = None,
      erased = False\<rparr>). \<not> isEscape y \<and> \<not> P y"
    by (auto simp: printFor_props)
  from assms(1) have P1: "\<forall>x. P x \<longrightarrow> iid x = None"
    and P2: "\<forall>i n x. P (substInst i n x) = P x" by (auto simp: stable_def)
  show ?thesis
    unfolding sameShape_def insertBefore_rewrite
    using rewrite_preserves[OF P1 P2 c] by simp
qed

lemma chooseStep_fields:
  assumes "chooseStep env I (W, s) = (W', s')"
  shows "IR s' = insertBefore I [printFor env I] (IR s) \<and> HasCalls s' = HasCalls s
         \<and> Res s' = Res s \<and> AtomicAccesses s' = AtomicAccesses s
         \<and> MemIntrinCalls s' = MemIntrinCalls s"
  using assms
  by (auto simp: Let_def printFor_def split: if_splits prod.splits)

lemma fold_chooseStep_fields:
  assumes "fold (chooseStep env) xs (W, s) = (W', s')"
  shows "IR s' = fold (\<lambda>I. insertBefore I [printFor env I]) xs (IR s) \<and> HasCalls s' = HasCalls s
         \<and> Res s' = Res s \<and> AtomicAccesses s' = AtomicAccesses s
         \<and> MemIntrinCalls s' = MemIntrinCalls s"
  using assms
proof (induction xs arbitrary: W s)
  case Nil
  then show ?case by simp
next
  case (Cons I xs)
  obtain W1 s1 where st: "chooseStep env I (W, s) = (W1, s1)"
    by (cases "chooseStep env I (W, s)")
  with Cons.prems have "fold (chooseStep env) xs (W1, s1) = (W', s')" by simp
  from Cons.IH[OF this] chooseStep_fields[OF st] show ?case by simp
qed

lemma choose_fields:
  "IR (chooseInstructionsToInstrument env s) =
     fold (\<lambda>I. insertBefore I [printFor env I]) (rev (LocalLoadsAndStores s)) (IR s)
   \<and> HasCalls (chooseInstructionsToInstrument env s) = HasCalls s
   \<and> Res (chooseInstructionsToInstrument env s) = Res s
   \<and> AtomicAccesses (chooseInstructionsToInstrument env s) = AtomicAccesses s
   \<and> MemIntrinCalls (chooseInstructionsToInstrument env s) = MemIntrinCalls s
   \<and> LocalLoadsAndStores (chooseInstructionsToInstrument env s) = []"
proof -
  obtain W' s' where f: "fold (chooseStep env) (rev (LocalLoadsAndStores s)) ({}, s) = (W', s')"
    by (cases "fold (chooseStep env) (rev (LocalLoadsAndStores s)) ({}, s)")
  from fold_chooseStep_fields[OF f] f show ?thesis
    by (simp add: chooseInstructionsToInstrument_def chooseLoop_def)
qed

lemma sameShape_fold_print:
  assumes "stable P" and "\<forall>y. isPrintProbe y \<longrightarrow> \<not> P y"
  shows "sameShape P ir (fold (\<lambda>I. insertBefore I [printFor env I]) xs ir)"
proof (induction xs arbitrary: ir)
  case Nil
  then show ?case by simp
next
  case (Cons I xs)
  from sameShape_print[OF assms, of ir I env] Cons[of "insertBefore I [printFor env I] ir"]
  show ?case by (auto intro: sameShape_trans)
qed

lemma collected_choose:
  assumes "stable P" and "\<forall>y. isPrintProbe y \<longrightarrow> \<not> P y" and "collected P ir0 s"
  shows "collected P ir0 (chooseInstructionsToInstrument env s)"
  using assms(3) choose_fields[of env s]
    sameShape_fold_print[OF assms(1,2), of "IR s" env "rev (LocalLoadsAndStores s)"]
  by (auto simp: collected_def intro: sameShape_trans)

lemma visitInst_props:
  assumes "stable P" and "\<forall>y. isPrintProbe y \<longrightarrow> \<not> P y"
      and sync: "\<forall>J ir. InstrIfSynchronization env J ir = ir"
      and "collected P ir0 s"
  shows "collected P ir0 (visitInst env x s)
         \<and> HasCalls (visitInst env x s) = (HasCalls s \<or> isaCallInst x \<or> isaInvokeInst x)"
proof -
  have k: "\<not> (isaCallInst x \<or> isaInvokeInst x)" if "isAtomic x \<or> isaLoadInst x \<or> isaStoreInst x"
    using that by (cases x) auto
  show ?thesis
  proof (cases "isAtomic x \<or> isaLoadInst x \<or> isaStoreInst x")
    case True
    with k assms(4) show ?thesis
      by (auto simp: visitInst_def collected_def)
  next
    case False
    show ?thesis
    proof (cases "isaCallInst x \<or> isaInvokeInst x")
      case c: False
      with False assms(4) show ?thesis by (simp add: visitInst_def)
    next
      case c: True
      let ?s3 = "(if isaMemIntrinsic x then s\<lparr>MemIntrinCalls := MemIntrinCalls s @ [x]\<rparr> else s)
                   \<lparr>HasCalls := True\<rparr>"
      from False c sync have v: "visitInst env x s = chooseInstructionsToInstrument env ?s3"
        by (auto simp: visitInst_def Let_def)
      from assms(4) have "collected P ir0 ?s3" by (auto simp: collected_def)
      from collected_choose[OF assms(1,2) this, of env] choose_fields[of env ?s3] c
      show ?thesis unfolding v by auto
    qed
  qed
qed

lemma fold_visitInst_props:
  assumes "stable P" and "\<forall>y. isPrintProbe y \<longrightarrow> \<not> P y"
      and sync: "\<forall>J ir. InstrIfSynchronization env J ir = ir"
      and "collected P ir0 s"
  shows "collected P ir0 (fold (visitInst env) xs s)
         \<and> HasCalls (fold (visitInst env) xs s) =
             (HasCalls s \<or> list_ex (\<lambda>x. isaCallInst x \<or> isaInvokeInst x) xs)"
  using assms(4)
proof (induction xs arbitrary: s)
  case Nil
  then show ?case by simp
next
  case (Cons x xs)
  note v = visitInst_props[OF assms(1,2,3) Cons.prems, of x]
  from Cons.IH[of "visitInst env x s"] v show ?case by auto
qed

lemma fold_visitBlock_props:
  assumes "stable P" and "\<forall>y. isPrintProbe y \<longrightarrow> \<not> P y"
      and sync: "\<forall>J ir. InstrIfSynchronization env J ir = ir"
      and "collected P ir0 s"
  shows "collected P ir0 (fold (visitBlock env) bs s)
         \<and> HasCalls (fold (visitBlock env) bs s) = (HasCalls s \<or> hasCall bs)"
  using assms(4)
proof (induction bs arbitrary: s)
  case Nil
  then show ?case by (simp add: hasCall_def)
next
  case (Cons b bs)
  note f = fold_visitInst_props[OF assms(1,2,3) Cons.prems, of b]
  let ?s1 = "visitBlock env b s"
  from f collected_choose[OF assms(1,2), of ir0 "fold (visitInst env) b s" env]
    choose_fields[of env "fold (visitInst env) b s"]
  have c: "collected P ir0 ?s1"
    and h: "HasCalls ?s1 = (HasCalls s \<or> list_ex (\<lambda>x. isaCallInst x \<or> isaInvokeInst x) b)"
    by (auto simp: visitBlock_def)
  from Cons.IH[OF c] h show ?case by (auto simp: hasCall_def)
qed

lemma collect_props:
  assumes "stable P" and "\<forall>y. isPrintProbe y \<longrightarrow> \<not> P y"
      and sync: "\<forall>J ir. InstrIfSynchronization env J ir = ir"
  shows "sameShape P (blocks F) (IR (collect env F st)) \<and> \<not> Res (collect env F st)
         \<and> HasCalls (collect env F st) = hasCall (blocks F)
         \<and> (MemIntrinCalls (collect env F st) \<noteq> [] \<longrightarrow> HasCalls (collect env F st))"
proof -
  let ?s0 = "\<lparr>IR = blocks F, AllLoadsAndStores = [], LocalLoadsAndStores = [],
        AtomicAccesses = [], MemIntrinCalls = [], HasCalls = False, Res = False,
        stats = st\<rparr>"
  have "collected P (blocks F) ?s0" by (simp add: collected_def)
  from fold_visitBlock_props[OF assms this, of "blocks F"] show ?thesis
    unfolding collect_def collected_def by auto
qed

subsection \<open>The escape enumerator\<close>

lemma isExit_atExit: "\<not> isEscape p \<Longrightarrow> isExit (atExit p b) = isExit b"
  by (simp add: atExit_def isExit_def)

lemma isExit_Nil [simp]: "\<not> isExit []"
  by (simp add: isExit_def)

lemma filter_atExit:
  "length (filter P (atExit p b)) = length (filter P b) + (if isExit b \<and> P p then 1 else 0)"
  by (cases b rule: rev_cases) (simp_all add: atExit_def isExit_def)

lemma exits_map_atExit: "\<not> isEscape p \<Longrightarrow> exits (map (atExit p) ir) = exits ir"
  by (induction ir) (simp_all add: exits_def isExit_atExit)

lemma cnt_map_atExit:
  "cnt P (map (atExit p) ir) = cnt P ir + (if P p then exits ir else 0)"
  by (induction ir) (simp_all add: cnt_def exits_def filter_atExit)

lemma throwing_map_atExit:
  "\<not> mayThrowCall p \<Longrightarrow> throwing (map (atExit p) ir) = throwing ir"
proof -
  assume p: "\<not> mayThrowCall p"
  have a: "list_ex mayThrowCall (atExit p b) = list_ex mayThrowCall b" for b
    using p by (cases b rule: rev_cases) (simp_all add: atExit_def)
  show ?thesis
    by (induction ir) (simp_all add: throwing_def a)
qed

lemma splitAtCalls_nonempty [simp]: "splitAtCalls b \<noteq> []"
  by (induction b) (auto split: list.splits)

lemma hd_splitAtCalls_Nil: "(hd (splitAtCalls b) = []) = (b = [])"
  by (induction b) (auto split: list.splits)

lemma isEscape_not_throw: "isEscape x \<Longrightarrow> \<not> mayThrowCall x"
  by (cases x) simp_all

lemma isExit_Cons: "isExit (x # b) = (if b = [] then isEscape x else isExit b)"
  by (simp add: isExit_def)

lemma exits_splitAtCalls: "exits (splitAtCalls b) = (if isExit b then 1 else 0)"
proof (induction b)
  case Nil
  then show ?case by (simp add: exits_def isExit_def)
next
  case (Cons x xs)
  show ?case
  proof (cases "mayThrowCall x")
    case True
    then have nx: "\<not> isEscape x" using isEscape_not_throw by blast
    have ni: "\<not> isExit [changeToInvoke x]"
      using True by (cases x) (simp_all add: isExit_def)
    from True Cons ni nx show ?thesis
      by (cases "xs = []") (simp_all add: exits_def isExit_Cons isExit_def)
  next
    case False
    obtain b' bs where s: "splitAtCalls xs = b' # bs"
      using splitAtCalls_nonempty[of xs] by (cases "splitAtCalls xs") auto
    from hd_splitAtCalls_Nil[of xs] s have e: "(b' = []) = (xs = [])" by simp
    from Cons s have ih: "exits (b' # bs) = (if isExit xs then 1 else 0)" by simp
    show ?thesis
    proof (cases "xs = []")
      case True
      with s have "b' = []" "bs = []" by simp_all
      with False True s show ?thesis by (simp add: exits_def isExit_Cons)
    next
      case nx: False
      with e have ne: "b' \<noteq> []" by simp
      have "exits ((x # b') # bs) = exits (b' # bs)"
        using ne by (simp add: exits_def isExit_Cons)
      with False s ih nx show ?thesis by (simp add: isExit_Cons)
    qed
  qed
qed

lemma exits_append [simp]: "exits (a @ b) = exits a + exits b"
  by (simp add: exits_def)

lemma exits_concat_split: "exits (concat (map splitAtCalls ir)) = exits ir"
proof (induction ir)
  case Nil
  then show ?case by (simp add: exits_def)
next
  case (Cons b ir)
  have "exits (b # ir) = (if isExit b then 1 else 0) + exits ir" by (simp add: exits_def)
  with Cons show ?case by (simp add: exits_splitAtCalls)
qed

lemma concat_splitAtCalls:
  "concat (splitAtCalls b) = map (\<lambda>x. if mayThrowCall x then changeToInvoke x else x) b"
  by (induction b) (auto split: list.splits)

lemma cnt_append [simp]: "cnt P (a @ b) = cnt P a + cnt P b"
  by (simp add: cnt_def)

lemma cnt_concat_split:
  assumes "\<forall>x. mayThrowCall x \<longrightarrow> P (changeToInvoke x) = P x"
  shows "cnt P (concat (map splitAtCalls ir)) = cnt P ir"
proof -
  have "length (filter P (concat (splitAtCalls b))) = length (filter P b)" for b
    unfolding concat_splitAtCalls using assms by (induction b) simp_all
  then show ?thesis by (induction ir) (simp_all add: cnt_def)
qed

lemma not_throw_changeToInvoke: "\<not> mayThrowCall (changeToInvoke x)"
  by (cases x) simp_all

lemma throwing_concat_split: "\<not> throwing (concat (map splitAtCalls ir))"
proof -
  have a: "\<not> list_ex mayThrowCall (concat (splitAtCalls b))" for b
    unfolding concat_splitAtCalls by (induction b) (simp_all add: not_throw_changeToInvoke)
  show ?thesis
    by (induction ir) (simp_all add: throwing_def a)
qed

lemma EscapeEnumerator_props:
  assumes "\<not> isEscape p" and "\<not> mayThrowCall p"
      and "\<forall>x. mayThrowCall x \<longrightarrow> P (changeToInvoke x) = P x"
      and "\<not> P LandingPadInst" and "\<not> P ResumeInst"
  shows "exits (EscapeEnumerator h n p ir) = exits ir + cleanupPad h n ir"
    and "cnt P (EscapeEnumerator h n p ir) =
           cnt P ir + (if P p then exits ir + cleanupPad h n ir else 0)"
    and "throwing (EscapeEnumerator h n p ir) = (throwing ir \<and> \<not> (h \<and> \<not> n))"
proof -
  define ir1 where "ir1 = map (atExit p) ir"
  have t: "list_ex mayThrowCall (concat ir1) = throwing ir"
    using throwing_map_atExit[OF assms(2), of ir] by (simp add: throwing_def ir1_def)
  have e1: "exits ir1 = exits ir" unfolding ir1_def by (rule exits_map_atExit[OF assms(1)])
  have c1: "cnt P ir1 = cnt P ir + (if P p then exits ir else 0)"
    unfolding ir1_def by (rule cnt_map_atExit)
  have x: "exits [[LandingPadInst, p, ResumeInst]] = 1" by (simp add: exits_def isExit_def)
  have y: "cnt P [[LandingPadInst, p, ResumeInst]] = (if P p then 1 else 0)"
    using assms(4,5) by (simp add: cnt_def)
  have z: "\<not> throwing [[LandingPadInst, p, ResumeInst]]"
    using assms(2) by (simp add: throwing_def)
  have E: "EscapeEnumerator h n p ir =
             (if h \<and> \<not> n \<and> throwing ir
              then concat (map splitAtCalls ir1) @ [[LandingPadInst, p, ResumeInst]] else ir1)"
    unfolding EscapeEnumerator_def Let_def ir1_def[symmetric] t by simp
  have t1: "throwing ir1 = throwing ir" using t by (simp add: throwing_def)
  have ta: "throwing (a @ b) = (throwing a \<or> throwing b)" for a b
    by (simp add: throwing_def)
  show "exits (EscapeEnumerator h n p ir) = exits ir + cleanupPad h n ir"
    unfolding E by (simp add: e1 cleanupPad_def exits_concat_split x)
  show "throwing (EscapeEnumerator h n p ir) = (throwing ir \<and> \<not> (h \<and> \<not> n))"
    unfolding E using throwing_concat_split[of ir1] z by (auto simp: t1 ta)
  show "cnt P (EscapeEnumerator h n p ir) =
           cnt P ir + (if P p then exits ir + cleanupPad h n ir else 0)"
    unfolding E by (simp add: c1 cleanupPad_def cnt_concat_split[OF assms(3)] y)
qed

lemma startsIn_iff: "startsIn ps xs = (\<exists>rest. xs = ps @ rest)"
proof
  assume "startsIn ps xs"
  then have "xs = ps @ drop (length ps) xs"
    using append_take_drop_id[of "length ps" xs] by (simp add: startsIn_def)
  then show "\<exists>rest. xs = ps @ rest" ..
next
  assume "\<exists>rest. xs = ps @ rest"
  then show "startsIn ps xs" by (auto simp: startsIn_def)
qed

lemma endsIn_iff: "endsIn ps xs = (\<exists>pre. xs = pre @ ps)"
proof
  assume "endsIn ps xs"
  then have "xs = take (length xs - length ps) xs @ ps"
    using append_take_drop_id[of "length xs - length ps" xs] by (simp add: endsIn_def)
  then show "\<exists>pre. xs = pre @ ps" ..
next
  assume "\<exists>pre. xs = pre @ ps"
  then show "endsIn ps xs" by (auto simp: endsIn_def)
qed

lemma endsIn_Nil [simp]: "endsIn [] xs"
  by (simp add: endsIn_def)

lemma PHI_props: "isaPHINode x \<Longrightarrow> \<not> isEscape x \<and> \<not> mayThrowCall x"
  by (cases x) simp_all

lemma entrySeq_iff:
  assumes "ps \<noteq> []" and "\<not> isaPHINode (hd ps)"
  shows "entrySeq ps ir =
           (ir \<noteq> [] \<and> (\<exists>phis rest. hd ir = phis @ ps @ rest \<and> list_all isaPHINode phis))"
proof -
  have "startsIn ps (dropWhile isaPHINode b) =
          (\<exists>phis rest. b = phis @ ps @ rest \<and> list_all isaPHINode phis)" for b
  proof
    assume "startsIn ps (dropWhile isaPHINode b)"
    then obtain rest where "dropWhile isaPHINode b = ps @ rest" by (auto simp: startsIn_iff)
    then have "b = takeWhile isaPHINode b @ ps @ rest"
      using takeWhile_dropWhile_id[of isaPHINode b] by simp
    moreover have "list_all isaPHINode (takeWhile isaPHINode b)"
      by (simp add: list_all_iff) (meson set_takeWhileD)
    ultimately show "\<exists>phis rest. b = phis @ ps @ rest \<and> list_all isaPHINode phis" by blast
  next
    assume "\<exists>phis rest. b = phis @ ps @ rest \<and> list_all isaPHINode phis"
    then obtain phis rest where b: "b = phis @ ps @ rest" and p: "list_all isaPHINode phis"
      by blast
    from assms obtain e qs where ps: "ps = e # qs" and e: "\<not> isaPHINode e"
      by (cases ps) auto
    from p have "dropWhile isaPHINode (phis @ ps @ rest) = dropWhile isaPHINode (ps @ rest)"
      by (intro dropWhile_append2) (simp add: list_all_iff)
    with e have "dropWhile isaPHINode b = ps @ rest" by (simp add: b ps)
    then show "startsIn ps (dropWhile isaPHINode b)" by (auto simp: startsIn_iff)
  qed
  then show ?thesis by (simp add: entrySeq_def)
qed

lemma insertAtEntry_props:
  assumes "ir \<noteq> []" and "\<forall>y \<in> set new. \<not> isEscape y"
  shows "map isExit (insertAtEntry new ir) = map isExit ir"
    and "cnt P (insertAtEntry new ir) = cnt P ir + length (filter P new)"
    and "throwing (insertAtEntry new ir) = (throwing ir \<or> list_ex mayThrowCall new)"
    and "insertAtEntry new ir \<noteq> []"
proof -
  from assms(1) obtain b bs where ir: "ir = b # bs" by (cases ir) auto
  let ?t = "takeWhile isaPHINode b" and ?d = "dropWhile isaPHINode b"
  have b: "b = ?t @ ?d" by simp
  have "isExit (?t @ new @ ?d) = isExit b"
  proof (cases "?d = []")
    case False
    then have "last (?t @ new @ ?d) = last ?d" by simp
    moreover from False have "last b = last ?d" using last_appendR[of ?d ?t] by simp
    moreover from False have "b \<noteq> []" by auto
    ultimately show ?thesis using False by (simp add: isExit_def)
  next
    case True
    then have all: "\<forall>x \<in> set b. isaPHINode x" by (simp add: dropWhile_eq_Nil_conv)
    have nb: "\<not> isExit b"
    proof
      assume "isExit b"
      then have "b \<noteq> []" "isEscape (last b)" by (simp_all add: isExit_def)
      with all PHI_props[of "last b"] show False using last_in_set[of b] by blast
    qed
    have "\<not> isExit (?t @ new)"
    proof (cases "new = []")
      case n: True
      from all have tb: "?t = b" by (simp add: takeWhile_eq_all_conv)
      from nb show ?thesis by (simp add: n tb)
    next
      case n: False
      then have "last (?t @ new) = last new" by simp
      with n assms(2) show ?thesis using last_in_set[of new] by (auto simp: isExit_def)
    qed
    then have "\<not> isExit (?t @ new @ ?d)" unfolding True by simp
    with nb show ?thesis by blast
  qed
  then show "map isExit (insertAtEntry new ir) = map isExit ir" by (simp add: ir)
  have f: "filter P b = filter P ?t @ filter P ?d"
    by (metis filter_append takeWhile_dropWhile_id)
  show "cnt P (insertAtEntry new ir) = cnt P ir + length (filter P new)"
    by (simp add: ir cnt_def f)
  have l: "list_ex mayThrowCall b = (list_ex mayThrowCall ?t \<or> list_ex mayThrowCall ?d)"
    by (metis list_ex_append takeWhile_dropWhile_id)
  show "throwing (insertAtEntry new ir) = (throwing ir \<or> list_ex mayThrowCall new)"
    by (auto simp: ir throwing_def l)
  show "insertAtEntry new ir \<noteq> []" by (simp add: ir)
qed

lemma exits_sameShape: "map isExit a = map isExit b \<Longrightarrow> exits a = exits b"
proof (induction a arbitrary: b)
  case Nil
  then show ?case by (simp add: exits_def)
next
  case (Cons x a)
  then obtain y b' where b: "b = y # b'" by (cases b) auto
  with Cons.prems have "isExit x = isExit y" "map isExit a = map isExit b'" by simp_all
  with Cons.IH[of b'] show ?case by (simp add: b exits_def)
qed

lemma entrySeq_insertAtEntry:
  assumes "ir \<noteq> []" and "\<not> isaPHINode e"
      and "ps = [] \<or> entrySeq ps ir"
  shows "entrySeq (e # ps) (insertAtEntry [e] ir)"
proof -
  from assms(1) obtain b bs where ir: "ir = b # bs" by (cases ir) auto
  have "dropWhile isaPHINode (takeWhile isaPHINode b @ e # dropWhile isaPHINode b)
        = dropWhile isaPHINode (e # dropWhile isaPHINode b)"
    by (intro dropWhile_append2) (meson set_takeWhileD)
  with assms(2) have d: "dropWhile isaPHINode (takeWhile isaPHINode b @ e # dropWhile isaPHINode b)
        = e # dropWhile isaPHINode b" by simp
  from assms(3) have "startsIn ps (dropWhile isaPHINode b)"
    by (auto simp: entrySeq_def ir startsIn_def)
  then show ?thesis by (simp add: entrySeq_def ir d startsIn_def)
qed

lemma atExit_prefix:
  assumes "b = xs @ rest" and "\<forall>x \<in> set xs. \<not> isEscape x"
  shows "\<exists>rest'. atExit p b = xs @ rest'"
proof (cases "isExit b")
  case False
  then have "atExit p b = b" by (auto simp: atExit_def isExit_def)
  with assms(1) show ?thesis by blast
next
  case True
  then have ne: "b \<noteq> []" and e: "isEscape (last b)" by (simp_all add: isExit_def)
  have "rest \<noteq> []"
  proof
    assume "rest = []"
    with assms(1) ne have "last b \<in> set xs" using last_in_set[of b] by simp
    with assms(2) e show False by blast
  qed
  then have "butlast b = xs @ butlast rest" by (simp add: assms(1) butlast_append)
  with True have "atExit p b = xs @ (butlast rest @ [p, last b])"
    by (simp add: atExit_def isExit_def)
  then show ?thesis ..
qed

lemma hd_splitAtCalls_prefix:
  "\<forall>x \<in> set xs. \<not> mayThrowCall x \<Longrightarrow>
     hd (splitAtCalls (xs @ rest)) = xs @ hd (splitAtCalls rest)"
proof (induction xs)
  case Nil
  then show ?case by simp
next
  case (Cons x xs)
  obtain b bs where s: "splitAtCalls (xs @ rest) = b # bs"
    using splitAtCalls_nonempty[of "xs @ rest"] by (cases "splitAtCalls (xs @ rest)") auto
  with Cons show ?case by simp
qed

lemma EscapeEnumerator_nosplit:
  assumes "\<not> mayThrowCall p" and "\<not> (h \<and> \<not> n \<and> throwing ir)"
  shows "EscapeEnumerator h n p ir = map (atExit p) ir"
proof -
  have "list_ex mayThrowCall (concat (map (atExit p) ir)) = throwing ir"
    using throwing_map_atExit[OF assms(1), of ir] by (simp add: throwing_def)
  with assms(2) show ?thesis by (auto simp: EscapeEnumerator_def Let_def)
qed

lemma EscapeEnumerator_split:
  assumes "\<not> mayThrowCall p" and "h \<and> \<not> n \<and> throwing ir"
  shows "EscapeEnumerator h n p ir =
           concat (map splitAtCalls (map (atExit p) ir)) @ [[LandingPadInst, p, ResumeInst]]"
proof -
  have "list_ex mayThrowCall (concat (map (atExit p) ir)) = throwing ir"
    using throwing_map_atExit[OF assms(1), of ir] by (simp add: throwing_def)
  with assms(2) show ?thesis by (simp add: EscapeEnumerator_def Let_def)
qed

lemma EscapeEnumerator_hd:
  assumes "ir \<noteq> []" and "hd ir = xs @ rest"
      and "\<forall>x \<in> set xs. \<not> isEscape x \<and> \<not> mayThrowCall x" and "\<not> mayThrowCall p"
  shows "EscapeEnumerator h n p ir \<noteq> [] \<and> (\<exists>rest'. hd (EscapeEnumerator h n p ir) = xs @ rest')"
proof -
  from assms(1) obtain b bs where ir: "ir = b # bs" by (cases ir) auto
  with assms(2) have b: "b = xs @ rest" by simp
  from atExit_prefix[OF b, of p] assms(3) obtain r1 where a: "atExit p b = xs @ r1" by blast
  show ?thesis
  proof (cases "h \<and> \<not> n \<and> throwing ir")
    case False
    with EscapeEnumerator_nosplit[OF assms(4), of h n ir] a show ?thesis by (simp add: ir)
  next
    case True
    obtain c cs where sp: "splitAtCalls (atExit p b) = c # cs"
      using splitAtCalls_nonempty[of "atExit p b"] by (cases "splitAtCalls (atExit p b)") auto
    from hd_splitAtCalls_prefix[of xs r1] assms(3) a sp
    have "c = xs @ hd (splitAtCalls r1)" by simp
    with EscapeEnumerator_split[OF assms(4) True] sp show ?thesis by (simp add: ir)
  qed
qed

lemma entrySeq_EscapeEnumerator:
  assumes "ps \<noteq> []" and "\<not> isaPHINode (hd ps)"
      and "\<forall>x \<in> set ps. \<not> isEscape x \<and> \<not> mayThrowCall x" and "\<not> mayThrowCall p"
      and "entrySeq ps ir"
  shows "entrySeq ps (EscapeEnumerator h n p ir)"
proof -
  from assms(5) obtain phis rest where ne: "ir \<noteq> []" and hd: "hd ir = (phis @ ps) @ rest"
    and ph: "list_all isaPHINode phis"
    unfolding entrySeq_iff[OF assms(1,2)] by auto
  from ph assms(3) have "\<forall>x \<in> set (phis @ ps). \<not> isEscape x \<and> \<not> mayThrowCall x"
    using PHI_props by (auto simp: list_all_iff)
  from EscapeEnumerator_hd[OF ne hd this assms(4), of h n] ph
  show ?thesis unfolding entrySeq_iff[OF assms(1,2)] by auto
qed

lemma butlast_atExit: "isExit b \<Longrightarrow> butlast (atExit p b) = butlast b @ [p]"
  by (simp add: atExit_def isExit_def butlast_append)

lemma exitSeq_atExit:
  assumes "\<not> isEscape p" and "exitSeq ps ir"
  shows "exitSeq (ps @ [p]) (map (atExit p) ir)"
  unfolding exitSeq_def list_all_iff
proof (intro ballI impI)
  fix c assume "c \<in> set (map (atExit p) ir)" and ex: "isExit c"
  then obtain b where b: "b \<in> set ir" and c: "c = atExit p b" by auto
  with ex have eb: "isExit b" by (simp add: isExit_atExit[OF assms(1)])
  with assms(2) b obtain pre where "butlast b = pre @ ps"
    by (auto simp: exitSeq_def list_all_iff endsIn_iff)
  with butlast_atExit[OF eb, of p] have "butlast c = pre @ ps @ [p]" by (simp add: c)
  then show "endsIn (ps @ [p]) (butlast c)" unfolding endsIn_iff by blast
qed

lemma exitSeq_Nil [simp]: "exitSeq [] ir"
  by (simp add: exitSeq_def list_all_iff)

lemma split_exit:
  assumes "\<not> mayThrowCall p" and "isEscape t"
  shows "c \<in> set (splitAtCalls (xs @ [p, t])) \<Longrightarrow> isExit c \<Longrightarrow> \<exists>pre. c = pre @ [p, t]"
proof (induction xs arbitrary: c)
  case Nil
  from assms have "splitAtCalls [p, t] = [[p, t]]" by (simp add: isEscape_not_throw)
  with Nil show ?case by simp
next
  case (Cons x xs)
  obtain b bs where s: "splitAtCalls (xs @ [p, t]) = b # bs"
    using splitAtCalls_nonempty[of "xs @ [p, t]"] by (cases "splitAtCalls (xs @ [p, t])") auto
  from hd_splitAtCalls_Nil[of "xs @ [p, t]"] s have bne: "b \<noteq> []" by simp
  show ?case
  proof (cases "mayThrowCall x")
    case True
    then have "\<not> isExit [changeToInvoke x]" by (cases x) (simp_all add: isExit_def)
    with True Cons.prems have "c \<in> set (splitAtCalls (xs @ [p, t]))" by auto
    from Cons.IH[OF this Cons.prems(2)] show ?thesis .
  next
    case False
    with Cons.prems(1) s have "c = x # b \<or> c \<in> set bs" by simp
    then show ?thesis
    proof
      assume c: "c = x # b"
      with Cons.prems(2) bne have "isExit b" by (simp add: isExit_Cons)
      with Cons.IH[of b] s obtain pre where "b = pre @ [p, t]" by auto
      with c have "c = (x # pre) @ [p, t]" by simp
      then show ?thesis ..
    next
      assume "c \<in> set bs"
      with s have "c \<in> set (splitAtCalls (xs @ [p, t]))" by simp
      from Cons.IH[OF this Cons.prems(2)] show ?thesis .
    qed
  qed
qed

lemma no_exit_piece:
  assumes "\<not> isExit b" and "c \<in> set (splitAtCalls b)"
  shows "\<not> isExit c"
proof
  assume "isExit c"
  with assms(2) have "c \<in> set (filter isExit (splitAtCalls b))" by simp
  then have "0 < exits (splitAtCalls b)" unfolding exits_def by (rule length_pos_if_in_set)
  with assms(1) show False by (simp add: exits_splitAtCalls)
qed

lemma exitSeq_EscapeEnumerator:
  assumes "\<not> isEscape p" and "\<not> mayThrowCall p"
  shows "exitSeq [p] (EscapeEnumerator h n p ir)"
proof (cases "h \<and> \<not> n \<and> throwing ir")
  case False
  from exitSeq_atExit[OF assms(1), of "[]" ir] show ?thesis
    unfolding EscapeEnumerator_nosplit[OF assms(2) False] by simp
next
  case True
  have "isExit c \<longrightarrow> endsIn [p] (butlast c)"
    if "c \<in> set (concat (map splitAtCalls (map (atExit p) ir)))" for c
  proof
    assume ex: "isExit c"
    from that obtain b where b: "b \<in> set ir" and c: "c \<in> set (splitAtCalls (atExit p b))"
      by auto
    from no_exit_piece[OF _ c] ex have "isExit (atExit p b)" by blast
    then have eb: "isExit b" by (simp add: isExit_atExit[OF assms(1)])
    then have "atExit p b = butlast b @ [p, last b]" and "isEscape (last b)"
      by (simp_all add: atExit_def isExit_def)
    with split_exit[OF assms(2), of "last b" c "butlast b"] c ex
    obtain pre where "c = pre @ [p, last b]" by auto
    then have "butlast c = pre @ [p]" by (simp add: butlast_append)
    then show "endsIn [p] (butlast c)" unfolding endsIn_iff by blast
  qed
  moreover have "endsIn [p] (butlast [LandingPadInst, p, ResumeInst])"
    by (simp add: endsIn_def)
  ultimately show ?thesis
    unfolding EscapeEnumerator_split[OF assms(2) True] exitSeq_def list_all_iff by auto
qed


subsection \<open>The ignore bracket and the entry and exit probes\<close>

lemma exitSeq_insertAtEntry:
  assumes "exitSeq qs ir" and "\<forall>x \<in> set qs. \<not> isaPHINode x" and "\<not> isEscape e"
  shows "exitSeq qs (insertAtEntry [e] ir)"
proof (cases ir)
  case Nil
  then show ?thesis by (simp add: exitSeq_def)
next
  case (Cons b bs)
  let ?t = "takeWhile isaPHINode b" and ?d = "dropWhile isaPHINode b"
  have "endsIn qs (butlast (?t @ [e] @ ?d))" if ex: "isExit (?t @ [e] @ ?d)"
  proof (cases "?d = []")
    case True
    have "isExit (?t @ [e]) = isEscape e" by (simp add: isExit_def)
    then have "isEscape e" using ex unfolding True by simp
    with assms(3) show ?thesis by blast
  next
    case False
    then have l: "last (?t @ [e] @ ?d) = last ?d"
      using last_appendR[of ?d "?t @ [e]"] by (simp del: dropWhile_eq_Nil_conv)
    from False have lb: "last b = last ?d"
      using last_appendR[of ?d ?t] by (simp del: dropWhile_eq_Nil_conv)
    from False have bne: "b \<noteq> []" by auto
    from ex l lb bne have eb: "isExit b" by (simp add: isExit_def)
    with assms(1) obtain pre where p: "butlast b = pre @ qs"
      by (auto simp: exitSeq_def Cons endsIn_iff)
    have "butlast (?t @ ?d) = ?t @ butlast ?d"
      using False by (simp add: butlast_append del: dropWhile_eq_Nil_conv takeWhile_dropWhile_id)
    then have bb: "butlast b = ?t @ butlast ?d" by simp
    from p bb have "?t @ butlast ?d = pre @ qs" by simp
    then obtain us where
      "(?t = pre @ us \<and> us @ butlast ?d = qs) \<or> (?t @ us = pre \<and> butlast ?d = us @ qs)"
      unfolding append_eq_append_conv2 by blast
    then have "\<exists>vs. butlast ?d = vs @ qs"
    proof
      assume a: "?t = pre @ us \<and> us @ butlast ?d = qs"
      have "us = []"
      proof (rule ccontr)
        assume "us \<noteq> []"
        then have h: "hd us \<in> set us" by simp
        with a have "hd us \<in> set ?t" by (metis Un_iff set_append)
        then have "isaPHINode (hd us)" by (meson set_takeWhileD)
        moreover from h a have "hd us \<in> set qs" by (metis Un_iff set_append)
        ultimately show False using assms(2) by blast
      qed
      with a show ?thesis by auto
    next
      assume "?t @ us = pre \<and> butlast ?d = us @ qs"
      then show ?thesis by blast
    qed
    then obtain vs where "butlast ?d = vs @ qs" ..
    with False have "butlast (?t @ [e] @ ?d) = (?t @ [e] @ vs) @ qs"
      by (simp add: butlast_append del: dropWhile_eq_Nil_conv)
    then show ?thesis unfolding endsIn_iff by blast
  qed
  with assms(1) show ?thesis by (simp add: exitSeq_def Cons)
qed

lemma cleanupPad_le: "cleanupPad h n ir \<le> 1"
  by (simp add: cleanupPad_def)

lemma InsertRuntimeIgnores_props:
  fixes opts :: Options and F :: Function and s :: PassState
  assumes ne: "IR s \<noteq> []"
      and P3: "\<forall>x. mayThrowCall x \<longrightarrow> P (changeToInvoke x) = P x"
      and PL: "\<not> P LandingPadInst" and PR: "\<not> P ResumeInst"
  defines "s' \<equiv> InsertRuntimeIgnores opts F s"
      and "h \<equiv> ClHandleCxxExceptions opts" and "n \<equiv> doesNotThrow F"
  shows "Res s' = Res s \<and> HasCalls s' = HasCalls s \<and> IR s' \<noteq> []"
    and "exits (IR s') = exits (IR s) + cleanupPad h n (IR s)"
    and "cnt P (IR s') = cnt P (IR s)
           + (if P (CallInst None TsanIgnoreBegin []) then 1 else 0)
           + (if P (CallInst None TsanIgnoreEnd []) then exits (IR s') else 0)"
    and "throwing (IR s') = (throwing (IR s) \<and> \<not> (h \<and> \<not> n))"
    and "entrySeq [CallInst None TsanIgnoreBegin []] (IR s')"
    and "exitSeq [CallInst None TsanIgnoreEnd []] (IR s')"
proof -
  let ?b = "CallInst None TsanIgnoreBegin []" and ?e = "CallInst None TsanIgnoreEnd []"
  define ir1 where "ir1 = insertAtEntry [?b] (IR s)"
  have I: "IR s' = EscapeEnumerator h n ?e ir1"
    and R: "Res s' = Res s" "HasCalls s' = HasCalls s"
    by (simp_all add: s'_def InsertRuntimeIgnores_def ir1_def h_def n_def)
  have nb: "\<forall>y \<in> set [?b]. \<not> isEscape y" by simp
  note a = insertAtEntry_props[OF ne nb, folded ir1_def]
  have e1: "\<not> isEscape ?e" and e2: "\<not> mayThrowCall ?e" by simp_all
  note b = EscapeEnumerator_props[OF e1 e2 P3 PL PR, of h n ir1]
  from a(3) have t1: "throwing ir1 = throwing (IR s)" by simp
  then have c1: "cleanupPad h n ir1 = cleanupPad h n (IR s)" by (simp add: cleanupPad_def)
  from a(1) have x1: "exits ir1 = exits (IR s)" by (rule exits_sameShape)
  show x: "exits (IR s') = exits (IR s) + cleanupPad h n (IR s)"
    unfolding I b(1) x1 c1 ..
  show "cnt P (IR s') = cnt P (IR s)
           + (if P ?b then 1 else 0) + (if P ?e then exits (IR s') else 0)"
    unfolding x unfolding I b(2) x1 c1 a(2)[of P] by simp
  show "throwing (IR s') = (throwing (IR s) \<and> \<not> (h \<and> \<not> n))"
    unfolding I b(3) t1 ..
  have "entrySeq [?b] ir1"
    unfolding ir1_def by (rule entrySeq_insertAtEntry[OF ne]) simp_all
  then show es: "entrySeq [?b] (IR s')"
    unfolding I by (intro entrySeq_EscapeEnumerator) simp_all
  show "exitSeq [?e] (IR s')"
    unfolding I by (rule exitSeq_EscapeEnumerator[OF e1 e2])
  from es R show "Res s' = Res s \<and> HasCalls s' = HasCalls s \<and> IR s' \<noteq> []"
    by (simp add: entrySeq_def)
qed

lemma instrumentEntryExit_props:
  fixes env :: Env and opts :: Options and F :: Function and s :: PassState
  assumes ne: "IR s \<noteq> []"
      and P3: "\<forall>x. mayThrowCall x \<longrightarrow> P (changeToInvoke x) = P x"
      and PL: "\<not> P LandingPadInst" and PR: "\<not> P ResumeInst"
  defines "s' \<equiv> instrumentEntryExit env opts F s"
      and "h \<equiv> ClHandleCxxExceptions opts" and "n \<equiv> doesNotThrow F"
      and "a \<equiv> funcNameArg env F"
      and "isMain \<equiv> (getFuncNameStr env F = ''main'')"
  shows "Res s' \<and> IR s' \<noteq> []"
    and "exits (IR s') = exits (IR s) + cleanupPad h n (IR s)"
    and "cnt P (IR s') = cnt P (IR s)
           + (if P (CallInst None TsanFuncEntry [a]) then 1 else 0)
           + (if P (CallInst None TsanFuncExit [a]) then exits (IR s') else 0)
           + (if isMain \<and> P (CallInst None TsanMainFuncExit [a]) then exits (IR s') else 0)"
    and "ps = [] \<or> entrySeq ps (IR s) \<Longrightarrow> \<forall>x \<in> set ps. \<not> isEscape x \<and> \<not> mayThrowCall x
           \<Longrightarrow> entrySeq (CallInst None TsanFuncEntry [a] # ps) (IR s')"
    and "exitSeq qs (IR s) \<Longrightarrow> qs = [] \<or> \<not> (h \<and> \<not> n \<and> throwing (IR s)) \<Longrightarrow>
           \<forall>x \<in> set qs. \<not> isaPHINode x \<Longrightarrow>
           exitSeq (qs @ CallInst None TsanFuncExit [a]
                       # (if isMain then [CallInst None TsanMainFuncExit [a]] else [])) (IR s')"
proof -
  let ?e = "CallInst None TsanFuncEntry [a]" and ?x = "CallInst None TsanFuncExit [a]"
  let ?m = "CallInst None TsanMainFuncExit [a]"
  define ir1 where "ir1 = insertAtEntry [?e] (IR s)"
  define ir2 where "ir2 = EscapeEnumerator h n ?x ir1"
  define ir3 where "ir3 = (if isMain then EscapeEnumerator h n ?m ir2 else ir2)"
  have I: "IR s' = ir3" and R: "Res s'"
    by (simp_all add: s'_def instrumentEntryExit_def Let_def ir1_def ir2_def ir3_def h_def n_def
        a_def funcNameArg_def isMain_def)
  have nb: "\<forall>y \<in> set [?e]. \<not> isEscape y" by simp
  note i1 = insertAtEntry_props[OF ne nb, folded ir1_def]
  have x1: "\<not> isEscape ?x" and x2: "\<not> mayThrowCall ?x" by simp_all
  have m1: "\<not> isEscape ?m" and m2: "\<not> mayThrowCall ?m" by simp_all
  note i2 = EscapeEnumerator_props[OF x1 x2 P3 PL PR, of h n ir1, folded ir2_def]
  note i3 = EscapeEnumerator_props[OF m1 m2 P3 PL PR, of h n ir2]
  from i1(3) have t1: "throwing ir1 = throwing (IR s)" by simp
  then have c1: "cleanupPad h n ir1 = cleanupPad h n (IR s)" by (simp add: cleanupPad_def)
  from i1(1) have e1: "exits ir1 = exits (IR s)" by (rule exits_sameShape)
  from i2(3) have ns: "\<not> (h \<and> \<not> n \<and> throwing ir2)" by simp
  then have c2: "cleanupPad h n ir2 = 0" by (simp add: cleanupPad_def)
  have e2: "exits ir2 = exits (IR s) + cleanupPad h n (IR s)"
    unfolding i2(1) e1 c1 ..
  have e3: "exits ir3 = exits ir2" by (simp add: ir3_def i3(1) c2)
  show x: "exits (IR s') = exits (IR s) + cleanupPad h n (IR s)"
    unfolding I e3 e2 ..
  have k1: "cnt P ir1 = cnt P (IR s) + (if P ?e then 1 else 0)"
    using i1(2)[of P] by simp
  have k2: "cnt P ir2 = cnt P ir1 + (if P ?x then exits ir2 else 0)"
    unfolding i2(2) i2(1) ..
  have k3: "cnt P ir3 = cnt P ir2 + (if isMain \<and> P ?m then exits ir2 else 0)"
    by (simp add: ir3_def i3(2) c2)
  show "cnt P (IR s') = cnt P (IR s) + (if P ?e then 1 else 0)
           + (if P ?x then exits (IR s') else 0)
           + (if isMain \<and> P ?m then exits (IR s') else 0)"
    unfolding I e3 k3 k2 k1 by simp
  have ne3: "ir3 \<noteq> []"
  proof -
    have "entrySeq [?e] ir1"
      unfolding ir1_def by (rule entrySeq_insertAtEntry[OF ne]) simp_all
    then have "entrySeq [?e] ir2"
      unfolding ir2_def by (intro entrySeq_EscapeEnumerator) simp_all
    then have "entrySeq [?e] ir3"
      unfolding ir3_def by (auto intro!: entrySeq_EscapeEnumerator)
    then show ?thesis by (simp add: entrySeq_def)
  qed
  with R I show "Res s' \<and> IR s' \<noteq> []" by simp
  show "entrySeq (?e # ps) (IR s')"
    if p: "ps = [] \<or> entrySeq ps (IR s)" and q: "\<forall>x \<in> set ps. \<not> isEscape x \<and> \<not> mayThrowCall x"
  proof -
    have "entrySeq (?e # ps) ir1"
      unfolding ir1_def using p by (intro entrySeq_insertAtEntry[OF ne]) simp_all
    then have "entrySeq (?e # ps) ir2"
      unfolding ir2_def using q by (intro entrySeq_EscapeEnumerator) simp_all
    then have "entrySeq (?e # ps) ir3"
      unfolding ir3_def using q by (auto intro!: entrySeq_EscapeEnumerator)
    then show ?thesis by (simp add: I)
  qed
  show "exitSeq (qs @ ?x # (if isMain then [?m] else [])) (IR s')"
    if p: "exitSeq qs (IR s)" and q: "qs = [] \<or> \<not> (h \<and> \<not> n \<and> throwing (IR s))"
      and r: "\<forall>x \<in> set qs. \<not> isaPHINode x"
  proof -
    have q1: "exitSeq qs ir1"
      unfolding ir1_def using p r by (intro exitSeq_insertAtEntry) simp_all
    have s2: "exitSeq (qs @ [?x]) ir2"
    proof (cases "qs = []")
      case True
      then show ?thesis unfolding ir2_def by (simp add: exitSeq_EscapeEnumerator[OF x1 x2])
    next
      case False
      with q t1 have "\<not> (h \<and> \<not> n \<and> throwing ir1)" by simp
      from EscapeEnumerator_nosplit[OF x2 this] exitSeq_atExit[OF x1 q1]
      show ?thesis by (simp add: ir2_def)
    qed
    show ?thesis
    proof (cases isMain)
      case False
      with s2 show ?thesis by (simp add: I ir3_def)
    next
      case True
      from EscapeEnumerator_nosplit[OF m2 ns] exitSeq_atExit[OF m1 s2] True
      show ?thesis by (simp add: I ir3_def)
    qed
  qed
qed

subsection \<open>The calls of the filter in a function\<close>

lemma occ_one_list:
  assumes "distinct (map f (filter Q xs))" and "x \<in> set xs" and "Q x"
  shows "length (filter (\<lambda>y. Q y \<and> f y = f x) xs) = 1"
  using assms
proof (induction xs)
  case Nil
  then show ?case by simp
next
  case (Cons a xs)
  show ?case
  proof (cases "Q a \<and> f a = f x")
    case True
    have "filter (\<lambda>y. Q y \<and> f y = f x) xs = []"
    proof (rule ccontr)
      assume "filter (\<lambda>y. Q y \<and> f y = f x) xs \<noteq> []"
      then obtain y where "y \<in> set xs" "Q y" "f y = f x"
        by (metis (mono_tags, lifting) filter_False)
      then have "y \<in> set (filter Q xs)" and e: "f y = f x" by simp_all
      then have "f y \<in> f ` set (filter Q xs)" by (intro imageI)
      with True e Cons.prems(1) show False by simp
    qed
    with True show ?thesis by simp
  next
    case False
    with Cons.prems have "x \<in> set xs" by auto
    with Cons False show ?thesis by (auto split: if_splits)
  qed
qed

lemma occ_one:
  assumes "distinctIds ir" and "x \<in> set (concat ir)" and "iid x \<noteq> None"
  shows "cnt (sameInst x) ir = 1"
proof -
  have "sameInst x = (\<lambda>y. iid y \<noteq> None \<and> iid y = iid x)"
    using assms(3) by (auto simp: sameInst_def fun_eq_iff)
  with occ_one_list[of iid "\<lambda>x. iid x \<noteq> None" "concat ir" x] assms
  show ?thesis by (simp add: cnt_def distinctIds_def)
qed

lemma cnt_insertBefore:
  "cnt P (insertBefore J new ir) = cnt P ir + length (filter P new) * cnt (sameInst J) ir"
proof -
  have b: "length (filter P (concat (map (\<lambda>x. if sameInst J x then new @ [x] else [x]) b)))
        = length (filter P b) + length (filter P new) * length (filter (sameInst J) b)" for b
    by (induction b) simp_all
  show ?thesis
    by (induction ir) (simp_all add: cnt_def insertBefore_def b add_mult_distrib2)
qed

lemma fold_print_count:
  assumes "\<forall>I \<in> set xs. cnt (sameInst I) ir = 1"
  shows "cnt isPrintProbe (fold (\<lambda>I. insertBefore I [printFor env I]) xs ir)
           = cnt isPrintProbe ir + length xs
         \<and> (\<forall>J. cnt (sameInst J) (fold (\<lambda>I. insertBefore I [printFor env I]) xs ir)
                = cnt (sameInst J) ir)"
  using assms
proof (induction xs arbitrary: ir)
  case Nil
  then show ?case by simp
next
  case (Cons I xs)
  let ?ir1 = "insertBefore I [printFor env I] ir"
  have o: "cnt (sameInst J) ?ir1 = cnt (sameInst J) ir" for J
    by (auto simp: cnt_insertBefore sameInst_def printFor_props)
  from Cons.prems have p: "cnt isPrintProbe ?ir1 = cnt isPrintProbe ir + 1"
    by (simp add: cnt_insertBefore printFor_props)
  from Cons.prems o have "\<forall>I \<in> set xs. cnt (sameInst I) ?ir1 = 1" by simp
  from Cons.IH[OF this] o p show ?case by simp
qed

lemma choose_count:
  assumes "\<forall>I \<in> set (LocalLoadsAndStores s). cnt (sameInst I) (IR s) = 1"
  shows "cnt isPrintProbe (IR (chooseInstructionsToInstrument env s))
           = cnt isPrintProbe (IR s) + length (LocalLoadsAndStores s)
         \<and> (\<forall>J. cnt (sameInst J) (IR (chooseInstructionsToInstrument env s))
                = cnt (sameInst J) (IR s))
         \<and> LocalLoadsAndStores (chooseInstructionsToInstrument env s) = []"
  using fold_print_count[of "rev (LocalLoadsAndStores s)" "IR s" env] assms
    choose_fields[of env s]
  by simp

lemma pendingInv_choose:
  assumes "pendingInv k ir0 s"
  shows "pendingInv k ir0 (chooseInstructionsToInstrument env s)
         \<and> LocalLoadsAndStores (chooseInstructionsToInstrument env s) = []"
proof -
  from assms have "\<forall>I \<in> set (LocalLoadsAndStores s). cnt (sameInst I) (IR s) = 1"
    by (simp add: pendingInv_def)
  from choose_count[OF this, of env] assms show ?thesis by (simp add: pendingInv_def)
qed

lemma pendingInv_visitInst:
  assumes sync: "\<forall>J ir. InstrIfSynchronization env J ir = ir"
      and "pendingInv k ir0 s" and "plainAccess x \<longrightarrow> cnt (sameInst x) ir0 = 1"
  shows "pendingInv (k + (if plainAccess x then 1 else 0)) ir0 (visitInst env x s)"
proof (cases "isAtomic x")
  case True
  with assms(2) show ?thesis by (simp add: visitInst_def plainAccess_def pendingInv_def)
next
  case na: False
  show ?thesis
  proof (cases "isaLoadInst x \<or> isaStoreInst x")
    case True
    with na assms(2,3) show ?thesis by (simp add: visitInst_def plainAccess_def pendingInv_def)
  next
    case nl: False
    show ?thesis
    proof (cases "isaCallInst x \<or> isaInvokeInst x")
      case False
      with na nl assms(2) show ?thesis by (simp add: visitInst_def plainAccess_def)
    next
      case True
      let ?s3 = "(if isaMemIntrinsic x then s\<lparr>MemIntrinCalls := MemIntrinCalls s @ [x]\<rparr> else s)
                   \<lparr>HasCalls := True\<rparr>"
      from na nl True sync have v: "visitInst env x s = chooseInstructionsToInstrument env ?s3"
        by (auto simp: visitInst_def Let_def)
      from assms(2) have "pendingInv k ir0 ?s3" by (simp add: pendingInv_def)
      from pendingInv_choose[OF this, of env] nl show ?thesis
        unfolding v by (simp add: plainAccess_def)
    qed
  qed
qed

lemma pendingInv_fold_visitInst:
  assumes sync: "\<forall>J ir. InstrIfSynchronization env J ir = ir"
      and "pendingInv k ir0 s" and "\<forall>x \<in> set xs. plainAccess x \<longrightarrow> cnt (sameInst x) ir0 = 1"
  shows "pendingInv (k + length (filter plainAccess xs)) ir0 (fold (visitInst env) xs s)"
  using assms(2,3)
proof (induction xs arbitrary: k s)
  case Nil
  then show ?case by simp
next
  case (Cons x xs)
  from Cons.prems have "plainAccess x \<longrightarrow> cnt (sameInst x) ir0 = 1" by simp
  note v = pendingInv_visitInst[OF sync Cons.prems(1) this]
  from Cons.prems have "\<forall>x \<in> set xs. plainAccess x \<longrightarrow> cnt (sameInst x) ir0 = 1" by simp
  from Cons.IH[OF v this] show ?case by (auto simp: add.assoc)
qed

lemma pendingInv_fold_visitBlock:
  assumes sync: "\<forall>J ir. InstrIfSynchronization env J ir = ir"
      and "pendingInv k ir0 s" and "LocalLoadsAndStores s = []"
      and "\<forall>x \<in> set (concat bs). plainAccess x \<longrightarrow> cnt (sameInst x) ir0 = 1"
  shows "pendingInv (k + cnt plainAccess bs) ir0 (fold (visitBlock env) bs s)
         \<and> LocalLoadsAndStores (fold (visitBlock env) bs s) = []"
  using assms(2,3,4)
proof (induction bs arbitrary: k s)
  case Nil
  then show ?case by (simp add: cnt_def)
next
  case (Cons b bs)
  from Cons.prems have "\<forall>x \<in> set b. plainAccess x \<longrightarrow> cnt (sameInst x) ir0 = 1" by simp
  from pendingInv_fold_visitInst[OF sync Cons.prems(1) this]
  have "pendingInv (k + length (filter plainAccess b)) ir0 (fold (visitInst env) b s)" .
  from pendingInv_choose[OF this, of env]
  have v: "pendingInv (k + length (filter plainAccess b)) ir0 (visitBlock env b s)"
    and l: "LocalLoadsAndStores (visitBlock env b s) = []"
    by (simp_all add: visitBlock_def)
  from Cons.prems have "\<forall>x \<in> set (concat bs). plainAccess x \<longrightarrow> cnt (sameInst x) ir0 = 1"
    by simp
  from Cons.IH[OF v l this] show ?case by (simp add: cnt_def add.assoc)
qed

lemma plainAccess_iid: "plainAccess x \<Longrightarrow> iid x \<noteq> None"
  by (cases x) (simp_all add: plainAccess_def)

lemma collect_print_count:
  assumes sync: "\<forall>J ir. InstrIfSynchronization env J ir = ir"
      and "distinctIds (blocks F)"
  shows "cnt isPrintProbe (IR (collect env F st))
           = cnt isPrintProbe (blocks F) + cnt plainAccess (blocks F)"
proof -
  let ?s0 = "\<lparr>IR = blocks F, AllLoadsAndStores = [], LocalLoadsAndStores = [],
        AtomicAccesses = [], MemIntrinCalls = [], HasCalls = False, Res = False,
        stats = st\<rparr>"
  have i: "pendingInv 0 (blocks F) ?s0" by (simp add: pendingInv_def)
  have "\<forall>x \<in> set (concat (blocks F)). plainAccess x \<longrightarrow> cnt (sameInst x) (blocks F) = 1"
    using occ_one[OF assms(2)] plainAccess_iid by blast
  from pendingInv_fold_visitBlock[OF sync i _ this]
  have a: "pendingInv (cnt plainAccess (blocks F)) (blocks F) (collect env F st)"
    and b: "LocalLoadsAndStores (collect env F st) = []"
    by (simp_all add: collect_def)
  from a show ?thesis unfolding pendingInv_def b by simp
qed

lemma stable_isPrintProbe: "stable isPrintProbe"
  unfolding stable_def
proof (intro conjI allI impI)
  fix x assume "isPrintProbe x" then show "iid x = None"
    by (cases x rule: isPrintProbe.cases) simp_all
next
  fix i n x show "isPrintProbe (substInst i n x) = isPrintProbe x"
    by (cases x; simp) (rename_tac io g args, case_tac io; simp)+
next
  fix x assume "mayThrowCall x"
  then show "isPrintProbe (changeToInvoke x) = isPrintProbe x"
    by (cases x; simp) (rename_tac io g args, case_tac io; simp)
next
  fix y assume "loweringCall y"
  then show "\<not> isPrintProbe y" by (simp add: loweringCall_props)
qed

subsection \<open>The pass as a whole\<close>

lemma probe_not_print:
  "f \<noteq> TsanPrintVariables \<Longrightarrow> \<forall>y. isPrintProbe y \<longrightarrow> \<not> isProbeCall f y"
proof (intro allI impI)
  fix y assume "f \<noteq> TsanPrintVariables" "isPrintProbe y"
  then show "\<not> isProbeCall f y" by (cases y rule: isPrintProbe.cases) auto
qed

lemma runOnFunction_stages:
  assumes run: "runOnFunction env opts F st = Inr (F', r, st')"
      and nc: "\<not> isTsanCtorFunction F"
      and sync: "\<forall>J ir. InstrIfSynchronization env J ir = ir"
  obtains s3 s4 s5 where
      "\<forall>P. stable P \<longrightarrow> sameShape P (IR (collect env F st)) (IR s3)"
      "HasCalls s3 = hasCall (blocks F)"
      "\<not> Res s3 \<and> \<not> hasCall (blocks F) \<longrightarrow> IR s3 = IR (collect env F st)"
      "\<not> (NoCheckingAtRunTime F \<and> SanitizeThread F)"
      "s4 = (if ignoresInserted F (blocks F) then InsertRuntimeIgnores opts F s3 else s3)"
      "s5 = (if (Res s3 \<or> hasCall (blocks F)) \<and> ClInstrumentFuncEntryExit opts
             then instrumentEntryExit env opts F s4 else s4)"
      "F' = F\<lparr>blocks := IR s5\<rparr>" "r = Res s5"
proof -
  define s0 where "s0 = collect env F st"
  have sp: "stable (isProbeCall TsanFuncEntry)" by (rule stable_isProbeCall) simp_all
  note c = collect_props[OF sp probe_not_print sync, of F st, folded s0_def]
  have c0: "\<not> Res s0" "HasCalls s0 = hasCall (blocks F)" "MemIntrinCalls s0 \<noteq> [] \<longrightarrow> HasCalls s0"
    using c by blast+
  define r1 where "r1 = (if ClInstrumentMemoryAccesses opts \<and> SanitizeThread F
        then lowerLoadsAndStores env (AllLoadsAndStores s0) s0 else Inr s0)"
  from run nc obtain s1 where s1: "r1 = Inr s1"
    unfolding runOnFunction_def Let_def s0_def[symmetric] r1_def[symmetric]
    by (cases r1) simp_all
  define r2 where "r2 = (if ClInstrumentAtomics opts
        then lowerAtomics env (AtomicAccesses s1) s1 else Inr s1)"
  from run nc s1 obtain s2 where s2: "r2 = Inr s2"
    unfolding runOnFunction_def Let_def s0_def[symmetric] r1_def[symmetric]
    by (cases r2) (simp_all add: r2_def)
  define s3 where "s3 = (if ClInstrumentMemIntrinsics opts \<and> SanitizeThread F
        then lowerMemIntrinsics env (MemIntrinCalls s2) s2 else s2)"
  define s4 where "s4 = (if ignoresInserted F (blocks F) then InsertRuntimeIgnores opts F s3 else s3)"
  define s5 where "s5 = (if (Res s3 \<or> hasCall (blocks F)) \<and> ClInstrumentFuncEntryExit opts
             then instrumentEntryExit env opts F s4 else s4)"
  have p1: "(\<forall>P. stable P \<longrightarrow> sameShape P (IR s0) (IR s1)) \<and> HasCalls s1 = HasCalls s0
         \<and> MemIntrinCalls s1 = MemIntrinCalls s0 \<and> (\<not> Res s1 \<longrightarrow> IR s1 = IR s0)"
  proof (cases "ClInstrumentMemoryAccesses opts \<and> SanitizeThread F")
    case True
    with s1 have l: "lowerLoadsAndStores env (AllLoadsAndStores s0) s0 = Inr s1"
      by (simp add: r1_def)
    from lowerLoadsAndStores_props[OF _ l] lowerLoadsAndStores_props[OF sp l]
    show ?thesis by blast
  next
    case False
    with s1 have "s1 = s0" by (auto simp: r1_def)
    then show ?thesis by simp
  qed
  have p2: "(\<forall>P. stable P \<longrightarrow> sameShape P (IR s1) (IR s2)) \<and> HasCalls s2 = HasCalls s1
         \<and> length (MemIntrinCalls s2) = length (MemIntrinCalls s1)
         \<and> (Res s1 \<longrightarrow> Res s2) \<and> (\<not> Res s2 \<longrightarrow> IR s2 = IR s1)"
  proof (cases "ClInstrumentAtomics opts")
    case True
    with s2 have l: "lowerAtomics env (AtomicAccesses s1) s1 = Inr s2"
      by (simp add: r2_def)
    from lowerAtomics_props[OF _ l] lowerAtomics_props[OF sp l]
    show ?thesis by blast
  next
    case False
    with s2 have "s2 = s1" by (auto simp: r2_def)
    then show ?thesis by simp
  qed
  have p3: "(\<forall>P. stable P \<longrightarrow> sameShape P (IR s2) (IR s3)) \<and> HasCalls s3 = HasCalls s2
         \<and> Res s3 = Res s2 \<and> (MemIntrinCalls s2 = [] \<longrightarrow> IR s3 = IR s2)"
    using lowerMemIntrinsics_props[of _ s2 env "MemIntrinCalls s2"]
      lowerMemIntrinsics_props[OF sp, of s2 env "MemIntrinCalls s2"]
    by (simp add: s3_def)
  from p1 p2 p3 have a: "\<forall>P. stable P \<longrightarrow> sameShape P (IR s0) (IR s3)"
    by (blast intro: sameShape_trans)
  from p1 p2 p3 c0 have b: "HasCalls s3 = hasCall (blocks F)" by simp
  have d: "IR s3 = IR s0" if "\<not> Res s3" "\<not> hasCall (blocks F)"
  proof -
    from that c0 have "MemIntrinCalls s0 = []" by auto
    with p1 p2 have "MemIntrinCalls s2 = []" by simp
    with p1 p2 p3 that show ?thesis by auto
  qed
  have e: "\<not> (NoCheckingAtRunTime F \<and> SanitizeThread F)"
    using run nc s1 s2
    unfolding runOnFunction_def Let_def s0_def[symmetric] r1_def[symmetric]
    by (auto simp: r2_def split: if_splits)
  have hs: "ignoresInserted F (blocks F) = (NoCheckingAtRunTime F \<and> HasCalls s3)"
    by (simp add: ignoresInserted_def b)
  have f: "Res s4 = Res s3" "HasCalls s4 = HasCalls s3"
    by (simp_all add: s4_def InsertRuntimeIgnores_def)
  have R: "runOnFunction env opts F st =
      (case (if NoCheckingAtRunTime F
             then (if SanitizeThread F then Inl AssertionFailed
                   else Inr (if HasCalls s3 then InsertRuntimeIgnores opts F s3 else s3))
             else Inr s3) of
         Inl e \<Rightarrow> Inl e
       | Inr s4 \<Rightarrow>
           Inr (F\<lparr>blocks := IR (if (Res s4 \<or> HasCalls s4) \<and> ClInstrumentFuncEntryExit opts
                                then instrumentEntryExit env opts F s4 else s4)\<rparr>,
                Res (if (Res s4 \<or> HasCalls s4) \<and> ClInstrumentFuncEntryExit opts
                     then instrumentEntryExit env opts F s4 else s4),
                stats (if (Res s4 \<or> HasCalls s4) \<and> ClInstrumentFuncEntryExit opts
                       then instrumentEntryExit env opts F s4 else s4)))"
    apply (simp only: runOnFunction_def Let_def nc if_False)
    apply (simp only: s0_def[symmetric])
    apply (simp only: r1_def[symmetric])
    apply (simp only: s1 sum.case)
    apply (simp only: r2_def[symmetric])
    apply (simp only: s2 sum.case)
    apply (simp only: s3_def[symmetric])
    done
  have "runOnFunction env opts F st = Inr (F\<lparr>blocks := IR s5\<rparr>, Res s5, stats s5)"
  proof (cases "NoCheckingAtRunTime F \<and> HasCalls s3")
    case True
    with e hs have "s4 = InsertRuntimeIgnores opts F s3" by (simp add: s4_def)
    with True e f b show ?thesis unfolding R s5_def by simp
  next
    case False
    with hs have "s4 = s3" by (simp add: s4_def)
    with False e b show ?thesis unfolding R s5_def by auto
  qed
  with run have g: "F' = F\<lparr>blocks := IR s5\<rparr>" "r = Res s5" by simp_all
  from a b d e g show ?thesis
    by (intro that[of s3 s4 s5]) (simp_all add: s0_def s4_def s5_def)
qed

lemma sameShape_exits:
  "sameShape P a b \<Longrightarrow> exits b = exits a \<and> (a \<noteq> [] \<longrightarrow> b \<noteq> [])"
  using exits_sameShape[of b a] by (auto simp: sameShape_def)

lemma run_shape:
  fixes env :: Env and opts :: Options and F :: Function
  assumes run: "runOnFunction env opts F st = Inr (F', r, st')"
      and nc: "\<not> isTsanCtorFunction F"
      and sync: "\<forall>J ir. InstrIfSynchronization env J ir = ir"
      and ne: "blocks F \<noteq> []"
  defines "a \<equiv> funcNameArg env F"
      and "ign \<equiv> ignoresInserted F (blocks F)"
      and "probed \<equiv> (r \<and> ClInstrumentFuncEntryExit opts)"
      and "isMain \<equiv> (getFuncNameStr env F = ''main'')"
  shows "\<not> (NoCheckingAtRunTime F \<and> SanitizeThread F)"
    and "hasCall (blocks F) \<and> ClInstrumentFuncEntryExit opts \<longrightarrow> r"
    and "\<not> r \<and> \<not> hasCall (blocks F) \<longrightarrow> blocks F' = IR (collect env F st)"
    and "exits (blocks F) \<le> exits (blocks F') \<and> exits (blocks F') \<le> exits (blocks F) + 1"
    and "\<not> ClHandleCxxExceptions opts \<or> doesNotThrow F \<or> (\<not> ign \<and> \<not> probed)
           \<longrightarrow> exits (blocks F') = exits (blocks F)"
    and "probed \<longrightarrow> entrySeq (CallInst None TsanFuncEntry [a]
                       # (if ign then [CallInst None TsanIgnoreBegin []] else [])) (blocks F')"
    and "probed \<longrightarrow> exitSeq ((if ign then [CallInst None TsanIgnoreEnd []] else [])
                      @ CallInst None TsanFuncExit [a]
                      # (if isMain then [CallInst None TsanMainFuncExit [a]] else []))
                     (blocks F')"
    and "ign \<and> \<not> probed \<longrightarrow> entrySeq [CallInst None TsanIgnoreBegin []] (blocks F')
                          \<and> exitSeq [CallInst None TsanIgnoreEnd []] (blocks F')"
proof -
  let ?P = "isProbeCall TsanFuncEntry"
  have sp: "stable ?P" by (rule stable_isProbeCall) simp_all
  then have P3: "\<forall>x. mayThrowCall x \<longrightarrow> ?P (changeToInvoke x) = ?P x"
    by (simp add: stable_def)
  have PL: "\<not> ?P LandingPadInst" and PR: "\<not> ?P ResumeInst" by simp_all
  define h where "h = ClHandleCxxExceptions opts"
  define n where "n = doesNotThrow F"
  from runOnFunction_stages[OF run nc sync] obtain s3 s4 s5 where
    st: "\<forall>P. stable P \<longrightarrow> sameShape P (IR (collect env F st)) (IR s3)"
      "HasCalls s3 = hasCall (blocks F)"
      "\<not> Res s3 \<and> \<not> hasCall (blocks F) \<longrightarrow> IR s3 = IR (collect env F st)"
      "\<not> (NoCheckingAtRunTime F \<and> SanitizeThread F)"
      "s4 = (if ignoresInserted F (blocks F) then InsertRuntimeIgnores opts F s3 else s3)"
      "s5 = (if (Res s3 \<or> hasCall (blocks F)) \<and> ClInstrumentFuncEntryExit opts
             then instrumentEntryExit env opts F s4 else s4)"
      "F' = F\<lparr>blocks := IR s5\<rparr>" "r = Res s5"
    by blast
  from collect_props[OF sp probe_not_print sync, of F st]
  have c: "sameShape ?P (blocks F) (IR (collect env F st))" by simp
  from st(1) sp have "sameShape ?P (IR (collect env F st)) (IR s3)" by blast
  with c have "sameShape ?P (blocks F) (IR s3)" by (rule sameShape_trans)
  from sameShape_exits[OF this] ne
  have x3: "exits (IR s3) = exits (blocks F)" and ne3: "IR s3 \<noteq> []" by simp_all
  note I = InsertRuntimeIgnores_props[where opts=opts and F=F, OF ne3 P3 PL PR, folded h_def n_def]
  have r4: "Res s4 = Res s3" and ne4: "IR s4 \<noteq> []"
    using I(1) ne3 by (simp_all add: st(5))
  have x4: "exits (IR s4) = exits (blocks F) + (if ign then cleanupPad h n (IR s3) else 0)"
    using I(2) x3 by (simp add: st(5) ign_def)
  have t4: "ign \<longrightarrow> \<not> (h \<and> \<not> n \<and> throwing (IR s4))"
    using I(4) by (simp add: st(5) ign_def)
  note E = instrumentEntryExit_props[where env=env and opts=opts and F=F, OF ne4 P3 PL PR, folded h_def n_def a_def
      isMain_def]
  have probed: "probed = ((Res s3 \<or> hasCall (blocks F)) \<and> ClInstrumentFuncEntryExit opts)"
    using E(1) r4 by (auto simp: probed_def st(8) st(6))
  have b5: "blocks F' = IR s5" by (simp add: st(7))
  have s5: "s5 = (if probed then instrumentEntryExit env opts F s4 else s4)"
    by (simp add: probed st(6))
  have x5: "exits (IR s5) = exits (IR s4) + (if probed then cleanupPad h n (IR s4) else 0)"
    using E(2) by (simp add: s5)
  show "\<not> (NoCheckingAtRunTime F \<and> SanitizeThread F)" by (rule st(4))
  show "hasCall (blocks F) \<and> ClInstrumentFuncEntryExit opts \<longrightarrow> r"
    using probed by (auto simp: probed_def)
  show "\<not> r \<and> \<not> hasCall (blocks F) \<longrightarrow> blocks F' = IR (collect env F st)"
  proof
    assume k: "\<not> r \<and> \<not> hasCall (blocks F)"
    then have nr: "\<not> probed" by (simp add: probed_def)
    from k have ni: "\<not> ignoresInserted F (blocks F)" by (simp add: ignoresInserted_def)
    from nr ni have "s5 = s3" by (simp add: s5 st(5))
    moreover from this k r4 have "\<not> Res s3" by (simp add: st(8))
    ultimately show "blocks F' = IR (collect env F st)" using st(3) k b5 by simp
  qed
  have pad: "(if ign then cleanupPad h n (IR s3) else 0) + (if probed then cleanupPad h n (IR s4) else 0)
        \<le> 1"
    using t4 by (auto simp: cleanupPad_def)
  show "exits (blocks F) \<le> exits (blocks F') \<and> exits (blocks F') \<le> exits (blocks F) + 1"
    using pad unfolding b5 x5 x4 by simp
  show "\<not> ClHandleCxxExceptions opts \<or> doesNotThrow F \<or> (\<not> ign \<and> \<not> probed)
           \<longrightarrow> exits (blocks F') = exits (blocks F)"
    unfolding b5 x5 x4 by (auto simp: cleanupPad_def h_def n_def)
  show "probed \<longrightarrow> entrySeq (CallInst None TsanFuncEntry [a]
                       # (if ign then [CallInst None TsanIgnoreBegin []] else [])) (blocks F')"
  proof
    assume probed
    have "(if ign then [CallInst None TsanIgnoreBegin []] else []) = []
          \<or> entrySeq (if ign then [CallInst None TsanIgnoreBegin []] else []) (IR s4)"
      using I(5) by (simp add: st(5) ign_def)
    from E(4)[OF this] \<open>probed\<close> show "entrySeq (CallInst None TsanFuncEntry [a]
                       # (if ign then [CallInst None TsanIgnoreBegin []] else [])) (blocks F')"
      by (simp add: b5 s5)
  qed
  show "probed \<longrightarrow> exitSeq ((if ign then [CallInst None TsanIgnoreEnd []] else [])
                      @ CallInst None TsanFuncExit [a]
                      # (if isMain then [CallInst None TsanMainFuncExit [a]] else []))
                     (blocks F')"
  proof
    assume probed
    let ?qs = "if ign then [CallInst None TsanIgnoreEnd []] else []"
    have 1: "exitSeq ?qs (IR s4)" using I(6) by (simp add: st(5) ign_def)
    have 2: "?qs = [] \<or> \<not> (h \<and> \<not> n \<and> throwing (IR s4))" using t4 by auto
    have 3: "\<forall>x \<in> set ?qs. \<not> isaPHINode x" by simp
    from E(5)[OF 1 2 3] \<open>probed\<close> show "exitSeq (?qs @ CallInst None TsanFuncExit [a]
                      # (if isMain then [CallInst None TsanMainFuncExit [a]] else []))
                     (blocks F')"
      by (simp add: b5 s5)
  qed
  show "ign \<and> \<not> probed \<longrightarrow> entrySeq [CallInst None TsanIgnoreBegin []] (blocks F')
                          \<and> exitSeq [CallInst None TsanIgnoreEnd []] (blocks F')"
    using I(5,6) by (simp add: b5 s5 st(5) ign_def)
qed

lemma run_count:
  fixes env :: Env and opts :: Options and F :: Function
  assumes run: "runOnFunction env opts F st = Inr (F', r, st')"
      and nc: "\<not> isTsanCtorFunction F"
      and sync: "\<forall>J ir. InstrIfSynchronization env J ir = ir"
      and ne: "blocks F \<noteq> []"
      and sp: "stable P" and PL: "\<not> P LandingPadInst" and PR: "\<not> P ResumeInst"
  defines "a \<equiv> funcNameArg env F"
      and "ign \<equiv> ignoresInserted F (blocks F)"
      and "probed \<equiv> (r \<and> ClInstrumentFuncEntryExit opts)"
      and "isMain \<equiv> (getFuncNameStr env F = ''main'')"
  shows "cnt P (blocks F') = cnt P (IR (collect env F st))
           + (if ign then (if P (CallInst None TsanIgnoreBegin []) then 1 else 0)
                          + (if P (CallInst None TsanIgnoreEnd []) then exits (blocks F') else 0)
              else 0)
           + (if probed then (if P (CallInst None TsanFuncEntry [a]) then 1 else 0)
                          + (if P (CallInst None TsanFuncExit [a]) then exits (blocks F') else 0)
                          + (if isMain \<and> P (CallInst None TsanMainFuncExit [a])
                             then exits (blocks F') else 0)
              else 0)"
proof -
  let ?Q = "isProbeCall TsanFuncEntry"
  have sq: "stable ?Q" by (rule stable_isProbeCall) simp_all
  from sp have P3: "\<forall>x. mayThrowCall x \<longrightarrow> P (changeToInvoke x) = P x"
    by (simp add: stable_def)
  define h where "h = ClHandleCxxExceptions opts"
  define n where "n = doesNotThrow F"
  from runOnFunction_stages[OF run nc sync] obtain s3 s4 s5 where
    st: "\<forall>P. stable P \<longrightarrow> sameShape P (IR (collect env F st)) (IR s3)"
      "HasCalls s3 = hasCall (blocks F)"
      "\<not> Res s3 \<and> \<not> hasCall (blocks F) \<longrightarrow> IR s3 = IR (collect env F st)"
      "\<not> (NoCheckingAtRunTime F \<and> SanitizeThread F)"
      "s4 = (if ignoresInserted F (blocks F) then InsertRuntimeIgnores opts F s3 else s3)"
      "s5 = (if (Res s3 \<or> hasCall (blocks F)) \<and> ClInstrumentFuncEntryExit opts
             then instrumentEntryExit env opts F s4 else s4)"
      "F' = F\<lparr>blocks := IR s5\<rparr>" "r = Res s5"
    by blast
  from collect_props[OF sq probe_not_print sync, of F st]
  have c: "sameShape ?Q (blocks F) (IR (collect env F st))" by simp
  from st(1) sq have "sameShape ?Q (IR (collect env F st)) (IR s3)" by blast
  with c have "sameShape ?Q (blocks F) (IR s3)" by (rule sameShape_trans)
  from sameShape_exits[OF this] ne have ne3: "IR s3 \<noteq> []" by simp
  from st(1) sp have k3: "cnt P (IR s3) = cnt P (IR (collect env F st))"
    by (simp add: sameShape_def)
  note I = InsertRuntimeIgnores_props[where opts=opts and F=F, OF ne3 P3 PL PR, folded h_def n_def]
  have r4: "Res s4 = Res s3" and ne4: "IR s4 \<noteq> []"
    using I(1) ne3 by (simp_all add: st(5))
  have t4: "ign \<longrightarrow> \<not> (h \<and> \<not> n \<and> throwing (IR s4))"
    using I(4) by (simp add: st(5) ign_def)
  note E = instrumentEntryExit_props[where env=env and opts=opts and F=F, OF ne4 P3 PL PR, folded h_def n_def a_def
      isMain_def]
  have probed: "probed = ((Res s3 \<or> hasCall (blocks F)) \<and> ClInstrumentFuncEntryExit opts)"
    using E(1) r4 by (auto simp: probed_def st(8) st(6))
  have b5: "blocks F' = IR s5" by (simp add: st(7))
  have s5: "s5 = (if probed then instrumentEntryExit env opts F s4 else s4)"
    by (simp add: probed st(6))
  have x5: "ign \<longrightarrow> exits (IR s5) = exits (IR s4)"
    using E(2) t4 by (auto simp: s5 cleanupPad_def)
  have k4: "cnt P (IR s4) = cnt P (IR s3)
      + (if ign then (if P (CallInst None TsanIgnoreBegin []) then 1 else 0)
                     + (if P (CallInst None TsanIgnoreEnd []) then exits (IR s5) else 0)
         else 0)"
    using I(3) x5 by (simp add: st(5) ign_def)
  have k5: "cnt P (IR s5) = cnt P (IR s4)
      + (if probed then (if P (CallInst None TsanFuncEntry [a]) then 1 else 0)
                     + (if P (CallInst None TsanFuncExit [a]) then exits (IR s5) else 0)
                     + (if isMain \<and> P (CallInst None TsanMainFuncExit [a])
                        then exits (IR s5) else 0)
         else 0)"
    using E(3) by (simp add: s5)
  show ?thesis unfolding b5 unfolding k5 k4 k3 ..
qed

lemma insertBefore_elsewhere:
  "\<forall>x \<in> set b. \<not> sameInst I x \<Longrightarrow>
     concat (map (\<lambda>x. if sameInst I x then new @ [x] else [x]) b) = b"
  by (induction b) simp_all

lemma distinctIds_others:
  assumes "distinctIds ir" and "concat ir = A @ I # B" and "iid I \<noteq> None"
  shows "\<forall>x \<in> set A \<union> set B. \<not> sameInst I x"
proof
  fix x assume x: "x \<in> set A \<union> set B"
  show "\<not> sameInst I x"
  proof
    assume "sameInst I x"
    then have e: "iid x = iid I" and n: "iid x \<noteq> None" by (simp_all add: sameInst_def)
    from assms have d: "distinct (map iid (filter (\<lambda>x. iid x \<noteq> None) A) @ iid I #
        map iid (filter (\<lambda>x. iid x \<noteq> None) B))"
      by (simp add: distinctIds_def)
    from x n have "iid x \<in> iid ` set (filter (\<lambda>x. iid x \<noteq> None) A)
        \<or> iid x \<in> iid ` set (filter (\<lambda>x. iid x \<noteq> None) B)" by auto
    with d e show False by auto
  qed
qed

lemma insertBefore_at:
  assumes "distinctIds (bs1 @ (pre @ I # post) # bs2)" and "iid I \<noteq> None"
  shows "insertBefore I new (bs1 @ (pre @ I # post) # bs2) =
           bs1 @ (pre @ new @ I # post) # bs2"
proof -
  have c: "concat (bs1 @ (pre @ I # post) # bs2) = (concat bs1 @ pre) @ I # (post @ concat bs2)"
    by simp
  from distinctIds_others[OF assms(1) c assms(2)]
  have o: "\<forall>x \<in> set (concat bs1) \<union> set pre \<union> set post \<union> set (concat bs2). \<not> sameInst I x"
    by auto
  have s: "sameInst I I" using assms(2) by (simp add: sameInst_def)
  have 1: "map (\<lambda>b. concat (map (\<lambda>x. if sameInst I x then new @ [x] else [x]) b)) bs1 = bs1"
    using o by (intro map_idI insertBefore_elsewhere) auto
  have 2: "map (\<lambda>b. concat (map (\<lambda>x. if sameInst I x then new @ [x] else [x]) b)) bs2 = bs2"
    using o by (intro map_idI insertBefore_elsewhere) auto
  have 3: "concat (map (\<lambda>x. if sameInst I x then new @ [x] else [x]) pre) = pre"
    using o by (intro insertBefore_elsewhere) auto
  have 4: "concat (map (\<lambda>x. if sameInst I x then new @ [x] else [x]) post) = post"
    using o by (intro insertBefore_elsewhere) auto
  show ?thesis by (simp add: insertBefore_def 1 2 3 4 s)
qed

text \<open>
  C9. The filter creates the call of \<^verbatim>\<open>__tsan_print_variables\<close> before every load and
  store of the run it is given: each step of its loop inserts the call before the
  instruction whatever the write set and whatever the tests of the address decide, and
  in a function whose instructions have distinct identifiers the call stands immediately
  before the instruction. The function is not asked whether it is race-checked: when the
  synchronisation hook leaves the function alone, the traversal of any function adds one
  such call for each of its plain loads and stores, so that it changes every function
  that holds one, and so does the whole pass when it returns.
\<close>

theorem print_call_before_every_access:
  "IR (snd (chooseStep env I (W, s))) = insertBefore I [printFor env I] (IR s)
   \<and> isPrintProbe (printFor env I)
   \<and> IR (chooseInstructionsToInstrument env s) =
       fold (\<lambda>I. insertBefore I [printFor env I]) (rev (LocalLoadsAndStores s)) (IR s)
   \<and> (distinctIds (bs1 @ (pre @ I # post) # bs2) \<and> plainAccess I \<longrightarrow>
        insertBefore I [printFor env I] (bs1 @ (pre @ I # post) # bs2) =
          bs1 @ (pre @ printFor env I # I # post) # bs2)
   \<and> ((\<forall>J ir. InstrIfSynchronization env J ir = ir) \<and> distinctIds (blocks F) \<longrightarrow>
        cnt isPrintProbe (IR (collect env F st)) =
          cnt isPrintProbe (blocks F) + cnt plainAccess (blocks F)
        \<and> (0 < cnt plainAccess (blocks F) \<longrightarrow> IR (collect env F st) \<noteq> blocks F))
   \<and> ((\<forall>J ir. InstrIfSynchronization env J ir = ir) \<and> distinctIds (blocks F)
        \<and> \<not> isTsanCtorFunction F \<and> blocks F \<noteq> []
        \<and> runOnFunction env opts F st = Inr (F', r, st') \<longrightarrow>
        cnt isPrintProbe (blocks F') =
          cnt isPrintProbe (blocks F) + cnt plainAccess (blocks F))"
proof -
  have a: "IR (snd (chooseStep env I (W, s))) = insertBefore I [printFor env I] (IR s)"
    by (rule chooseStep_IR)
  have b: "isPrintProbe (printFor env I)" by (rule printFor_props)
  have c: "IR (chooseInstructionsToInstrument env s) =
       fold (\<lambda>I. insertBefore I [printFor env I]) (rev (LocalLoadsAndStores s)) (IR s)"
    by (rule chooseInstructionsToInstrument_IR)
  have d: "insertBefore I [printFor env I] (bs1 @ (pre @ I # post) # bs2) =
          bs1 @ (pre @ printFor env I # I # post) # bs2"
    if "distinctIds (bs1 @ (pre @ I # post) # bs2)" "plainAccess I"
    using insertBefore_at[OF that(1) plainAccess_iid[OF that(2)], of "[printFor env I]"] by simp
  have e: "cnt isPrintProbe (IR (collect env F st)) =
          cnt isPrintProbe (blocks F) + cnt plainAccess (blocks F)
        \<and> (0 < cnt plainAccess (blocks F) \<longrightarrow> IR (collect env F st) \<noteq> blocks F)"
    if "\<forall>J ir. InstrIfSynchronization env J ir = ir" "distinctIds (blocks F)"
  proof -
    from that have c: "cnt isPrintProbe (IR (collect env F st)) =
          cnt isPrintProbe (blocks F) + cnt plainAccess (blocks F)"
      by (rule collect_print_count)
    then have "IR (collect env F st) \<noteq> blocks F" if "0 < cnt plainAccess (blocks F)"
      using that by auto
    with c show ?thesis by simp
  qed
  have f: "cnt isPrintProbe (blocks F') =
          cnt isPrintProbe (blocks F) + cnt plainAccess (blocks F)"
    if sync: "\<forall>J ir. InstrIfSynchronization env J ir = ir" and di: "distinctIds (blocks F)"
      and nc: "\<not> isTsanCtorFunction F" and ne: "blocks F \<noteq> []"
      and run: "runOnFunction env opts F st = Inr (F', r, st')"
  proof -
    from run_count[OF run nc sync ne stable_isPrintProbe]
    have "cnt isPrintProbe (blocks F') = cnt isPrintProbe (IR (collect env F st))" by simp
    with collect_print_count[OF sync di, of st] show ?thesis by simp
  qed
  from a b c d e f show ?thesis by blast
qed

theorem print_call_before_every_access_witness:
  "distinctIds (blocks sample_unchecked_function)
   \<and> plainAccess sample_slot_store
   \<and> \<not> SanitizeThread sample_unchecked_function
   \<and> runOnFunction sample_env default_options sample_unchecked_function no_stats =
       Inr (sample_unchecked_function
              \<lparr>blocks := [[printFor sample_env sample_load, sample_load,
                           printFor sample_env sample_store, sample_store,
                           printFor sample_env sample_slot_store, sample_slot_store,
                           ReturnInst]]\<rparr>,
            False, no_stats\<lparr>NumOmittedReadsBeforeWrite := 1\<rparr>)
   \<and> cnt plainAccess (blocks sample_unchecked_function) = 3
   \<and> cnt isPrintProbe
        [[printFor sample_env sample_load, sample_load,
          printFor sample_env sample_store, sample_store,
          printFor sample_env sample_slot_store, sample_slot_store, ReturnInst]] = 3
   \<and> insertBefore sample_slot_store [printFor sample_env sample_slot_store]
        ([] @ ([sample_load, sample_store] @ sample_slot_store # [ReturnInst]) # [])
       = [] @ ([sample_load, sample_store] @ printFor sample_env sample_slot_store
                  # sample_slot_store # [ReturnInst]) # []"
proof -
  let ?F = sample_unchecked_function
  let ?B = "[[printFor sample_env sample_load, sample_load,
          printFor sample_env sample_store, sample_store,
          printFor sample_env sample_slot_store, sample_slot_store, ReturnInst]]"
  have di: "distinctIds (blocks ?F)"
    by (simp add: distinctIds_def sample_unchecked_function_def sample_load_def sample_store_def
        sample_slot_store_def)
  have pa: "plainAccess sample_slot_store" "plainAccess sample_load" "plainAccess sample_store"
    by (simp_all add: plainAccess_def sample_slot_store_def sample_load_def sample_store_def)
  have ns: "\<not> SanitizeThread ?F" by (simp add: sample_unchecked_function_def)
  have sy: "\<forall>J ir. InstrIfSynchronization sample_env J ir = ir" by (simp add: sample_env_def)
  have nc: "\<not> isTsanCtorFunction ?F" by (simp add: sample_unchecked_function_def)
  have ne: "blocks ?F \<noteq> []" by (simp add: sample_unchecked_function_def)
  have run: "runOnFunction sample_env default_options ?F no_stats =
       Inr (?F\<lparr>blocks := ?B\<rparr>, False, no_stats\<lparr>NumOmittedReadsBeforeWrite := 1\<rparr>)"
    by (simp add: runOnFunction_def collect_def visitBlock_def visitInst_def
        chooseInstructionsToInstrument_def chooseLoop_def default_options_def Let_def
        sample_unchecked_function_def sample_load_def sample_store_def sample_slot_store_def
        sample_global_def sample_slot_def sample_env_def insertBefore_def sameInst_def
        shouldInstrumentReadWriteFromAddress_def addrPointsToConstantData_def
        PointerMayBeCaptured_def printFor_def printVariablesCall_def startswith_def
        no_stats_def)
  have cp: "cnt plainAccess (blocks ?F) = 3"
    using pa by (simp add: cnt_def sample_unchecked_function_def plainAccess_def)
  have di2: "distinctIds ([] @ ([sample_load, sample_store] @ sample_slot_store # [ReturnInst]) # [])"
    using di by (simp add: sample_unchecked_function_def)
  note t = print_call_before_every_access[where env = sample_env and F = ?F
      and opts = default_options and st = no_stats and F' = "?F\<lparr>blocks := ?B\<rparr>" and r = False
      and st' = "no_stats\<lparr>NumOmittedReadsBeforeWrite := 1\<rparr>" and ?bs1.0 = "[]" and pre = "[sample_load, sample_store]"
      and I = sample_slot_store and post = "[ReturnInst]" and ?bs2.0 = "[]"]
  from t sy di nc ne run
  have "cnt isPrintProbe (blocks (?F\<lparr>blocks := ?B\<rparr>)) =
          cnt isPrintProbe (blocks ?F) + cnt plainAccess (blocks ?F)" by blast
  moreover have "cnt isPrintProbe (blocks ?F) = 0"
    by (simp add: cnt_def sample_unchecked_function_def sample_load_def sample_store_def
        sample_slot_store_def)
  ultimately have k: "cnt isPrintProbe ?B = 3" using cp by simp
  from t di2 pa(1)
  have i: "insertBefore sample_slot_store [printFor sample_env sample_slot_store]
        ([] @ ([sample_load, sample_store] @ sample_slot_store # [ReturnInst]) # [])
       = [] @ ([sample_load, sample_store] @ printFor sample_env sample_slot_store
                  # sample_slot_store # [ReturnInst]) # []"
    by blast
  show ?thesis
    by (intro conjI) (rule di pa(1) ns run cp k i)+
qed


lemma probe_counts:
  assumes run: "runOnFunction env opts F st = Inr (F', r, st')"
      and nc: "\<not> isTsanCtorFunction F"
      and sync: "\<forall>J ir. InstrIfSynchronization env J ir = ir"
      and ne: "blocks F \<noteq> []"
      and f: "\<not> isLoweringCallee f" "calleeDoesNotThrow f"
  shows "cnt (isProbeCall f) (blocks F') = cnt (isProbeCall f) (blocks F)
           + (if ignoresInserted F (blocks F)
              then (if f = TsanIgnoreBegin then 1 else 0)
                   + (if f = TsanIgnoreEnd then exits (blocks F') else 0)
              else 0)
           + (if r \<and> ClInstrumentFuncEntryExit opts
              then (if f = TsanFuncEntry then 1 else 0)
                   + (if f = TsanFuncExit then exits (blocks F') else 0)
                   + (if getFuncNameStr env F = ''main'' \<and> f = TsanMainFuncExit
                      then exits (blocks F') else 0)
              else 0)"
proof -
  have sp: "stable (isProbeCall f)" using f by (rule stable_isProbeCall)
  from f(2) have np: "f \<noteq> TsanPrintVariables" by auto
  from collect_props[OF sp probe_not_print[OF np] sync, of F st]
  have c: "cnt (isProbeCall f) (IR (collect env F st)) = cnt (isProbeCall f) (blocks F)"
    by (simp add: sameShape_def)
  have e: "(TsanIgnoreBegin = f) = (f = TsanIgnoreBegin)" "(TsanIgnoreEnd = f) = (f = TsanIgnoreEnd)"
    "(TsanFuncEntry = f) = (f = TsanFuncEntry)" "(TsanFuncExit = f) = (f = TsanFuncExit)"
    "(TsanMainFuncExit = f) = (f = TsanMainFuncExit)" by auto
  from run_count[OF run nc sync ne sp] show ?thesis
    unfolding c by (simp add: e cong: if_cong)
qed

lemma access_switches:
  "InsertRuntimeIgnores
     (opts\<lparr>ClInstrumentMemoryAccesses := a, ClInstrumentMemIntrinsics := b\<rparr>) F s
     = InsertRuntimeIgnores opts F s"
  "instrumentEntryExit env
     (opts\<lparr>ClInstrumentMemoryAccesses := a, ClInstrumentMemIntrinsics := b\<rparr>) F s
     = instrumentEntryExit env opts F s"
  by (simp_all add: InsertRuntimeIgnores_def instrumentEntryExit_def Let_def)

text \<open>
  C8. A function marked both race-checked and not to be checked at run time never comes
  out of the pass: the run ends in an error, the failed assertion of \<^verbatim>\<open>runOnFunction\<close>
  (\<^verbatim>\<open>assert\<close> is read as checked) unless one of the lowering loops has failed before it. A function marked not to be
  checked at run time that holds a call or an invoke, when the pass returns, is not
  race-checked, and the switches of plain-access and bulk-memory lowering make no
  difference to the result: neither lowering runs, while the filter still places its
  calls and atomic instructions are still lowered, as in every function; the call of \<^verbatim>\<open>__tsan_ignore_thread_begin\<close> is the first
  instruction after the phi nodes of the entry block, preceded only by the entry probe
  when entry and exit are instrumented; every block that ends in a return or a resume,
  the resume of the cleanup block of the unwind paths included, ends with the call of
  \<^verbatim>\<open>__tsan_ignore_thread_end\<close>, followed only by the exit probes; one begin call and one end
  call for each such block are added, and at most one cleanup block is added, none when
  exceptions are not handled or the function does not throw.
\<close>

theorem runtime_ignore_bracket:
  "(\<not> isTsanCtorFunction F \<and> NoCheckingAtRunTime F \<and> SanitizeThread F \<longrightarrow>
      (\<exists>e. runOnFunction env opts F st = Inl e))
   \<and> (\<not> isTsanCtorFunction F \<and> NoCheckingAtRunTime F \<and> hasCall (blocks F)
        \<and> blocks F \<noteq> [] \<and> (\<forall>J ir. InstrIfSynchronization env J ir = ir)
        \<and> runOnFunction env opts F st = Inr (F', r, st') \<longrightarrow>
        \<not> SanitizeThread F
        \<and> runOnFunction env
             (opts\<lparr>ClInstrumentMemoryAccesses := False, ClInstrumentMemIntrinsics := False\<rparr>)
             F st = Inr (F', r, st')
        \<and> entrySeq ((if ClInstrumentFuncEntryExit opts
                      then [CallInst None TsanFuncEntry [funcNameArg env F]] else [])
                     @ [CallInst None TsanIgnoreBegin []]) (blocks F')
        \<and> exitSeq (CallInst None TsanIgnoreEnd []
                     # (if ClInstrumentFuncEntryExit opts
                        then CallInst None TsanFuncExit [funcNameArg env F]
                             # (if getFuncNameStr env F = ''main''
                                then [CallInst None TsanMainFuncExit [funcNameArg env F]]
                                else [])
                        else [])) (blocks F')
        \<and> cnt (isProbeCall TsanIgnoreBegin) (blocks F')
             = cnt (isProbeCall TsanIgnoreBegin) (blocks F) + 1
        \<and> cnt (isProbeCall TsanIgnoreEnd) (blocks F')
             = cnt (isProbeCall TsanIgnoreEnd) (blocks F) + exits (blocks F')
        \<and> exits (blocks F) \<le> exits (blocks F') \<and> exits (blocks F') \<le> exits (blocks F) + 1
        \<and> (\<not> ClHandleCxxExceptions opts \<or> doesNotThrow F \<longrightarrow>
             exits (blocks F') = exits (blocks F)))"
proof -
  have a: "\<exists>e. runOnFunction env opts F st = Inl e"
    if "\<not> isTsanCtorFunction F" "NoCheckingAtRunTime F" "SanitizeThread F"
    using that by (auto simp: runOnFunction_def Let_def split: sum.splits)
  have b: "\<not> SanitizeThread F
        \<and> runOnFunction env
             (opts\<lparr>ClInstrumentMemoryAccesses := False, ClInstrumentMemIntrinsics := False\<rparr>)
             F st = Inr (F', r, st')
        \<and> entrySeq ((if ClInstrumentFuncEntryExit opts
                      then [CallInst None TsanFuncEntry [funcNameArg env F]] else [])
                     @ [CallInst None TsanIgnoreBegin []]) (blocks F')
        \<and> exitSeq (CallInst None TsanIgnoreEnd []
                     # (if ClInstrumentFuncEntryExit opts
                        then CallInst None TsanFuncExit [funcNameArg env F]
                             # (if getFuncNameStr env F = ''main''
                                then [CallInst None TsanMainFuncExit [funcNameArg env F]]
                                else [])
                        else [])) (blocks F')
        \<and> cnt (isProbeCall TsanIgnoreBegin) (blocks F')
             = cnt (isProbeCall TsanIgnoreBegin) (blocks F) + 1
        \<and> cnt (isProbeCall TsanIgnoreEnd) (blocks F')
             = cnt (isProbeCall TsanIgnoreEnd) (blocks F) + exits (blocks F')
        \<and> exits (blocks F) \<le> exits (blocks F') \<and> exits (blocks F') \<le> exits (blocks F) + 1
        \<and> (\<not> ClHandleCxxExceptions opts \<or> doesNotThrow F \<longrightarrow>
             exits (blocks F') = exits (blocks F))"
    if nc: "\<not> isTsanCtorFunction F" and no: "NoCheckingAtRunTime F"
      and hc: "hasCall (blocks F)" and ne: "blocks F \<noteq> []"
      and sync: "\<forall>J ir. InstrIfSynchronization env J ir = ir"
      and run: "runOnFunction env opts F st = Inr (F', r, st')"
  proof -
    note sh = run_shape[OF run nc sync ne]
    from no hc have ig: "ignoresInserted F (blocks F)" by (simp add: ignoresInserted_def)
    from sh(1) no have ns: "\<not> SanitizeThread F" by simp
    have eq: "runOnFunction env
             (opts\<lparr>ClInstrumentMemoryAccesses := False, ClInstrumentMemIntrinsics := False\<rparr>)
             F st = runOnFunction env opts F st"
      using ns by (simp add: runOnFunction_def Let_def access_switches
          cong: sum.case_cong if_cong)
    from sh(2) hc have r: "ClInstrumentFuncEntryExit opts \<longrightarrow> r" by simp
    have en: "entrySeq ((if ClInstrumentFuncEntryExit opts
                      then [CallInst None TsanFuncEntry [funcNameArg env F]] else [])
                     @ [CallInst None TsanIgnoreBegin []]) (blocks F')"
      using sh(6) sh(8) ig r by (cases "ClInstrumentFuncEntryExit opts") simp_all
    have ex: "exitSeq (CallInst None TsanIgnoreEnd []
                     # (if ClInstrumentFuncEntryExit opts
                        then CallInst None TsanFuncExit [funcNameArg env F]
                             # (if getFuncNameStr env F = ''main''
                                then [CallInst None TsanMainFuncExit [funcNameArg env F]]
                                else [])
                        else [])) (blocks F')"
      using sh(7) sh(8) ig r by (cases "ClInstrumentFuncEntryExit opts") simp_all
    have c1: "cnt (isProbeCall TsanIgnoreBegin) (blocks F')
             = cnt (isProbeCall TsanIgnoreBegin) (blocks F) + 1"
      using probe_counts[OF run nc sync ne, of TsanIgnoreBegin] ig by simp
    have c2: "cnt (isProbeCall TsanIgnoreEnd) (blocks F')
             = cnt (isProbeCall TsanIgnoreEnd) (blocks F) + exits (blocks F')"
      using probe_counts[OF run nc sync ne, of TsanIgnoreEnd] ig by simp
    from ns eq run en ex c1 c2 sh(4) sh(5) show ?thesis by simp
  qed
  from a b show ?thesis by blast
qed

theorem runtime_ignore_bracket_witness:
  "NoCheckingAtRunTime sample_both_function \<and> SanitizeThread sample_both_function
   \<and> (\<exists>e. runOnFunction sample_env default_options sample_both_function no_stats = Inl e)
   \<and> runOnFunction sample_env default_options sample_both_function no_stats
       = Inl AssertionFailed
   \<and> NoCheckingAtRunTime sample_trusted_function
   \<and> hasCall (blocks sample_trusted_function)
   \<and> runOnFunction sample_env default_options sample_trusted_function no_stats =
       Inr (sample_trusted_function
              \<lparr>blocks :=
                 [[CallInst None TsanFuncEntry [funcNameArg sample_env sample_trusted_function],
                   CallInst None TsanIgnoreBegin [],
                   InvokeInst None TsanPrintVariables
                     [getInt32 391, CreatePointerCast sample_global getInt8PtrTy,
                      CreateIntCast (ConstantInt 32 300) getInt8Ty False,
                      GlobalVariable ''.str.obj'' [] True getInt8PtrTy]],
                  [sample_store, InvokeInst (Some 5) (OtherFn ''h'' False) []],
                  [CallInst None TsanIgnoreEnd [],
                   CallInst None TsanFuncExit [funcNameArg sample_env sample_trusted_function],
                   ReturnInst],
                  [LandingPadInst, CallInst None TsanIgnoreEnd [],
                   CallInst None TsanFuncExit [funcNameArg sample_env sample_trusted_function],
                   ResumeInst]]\<rparr>,
            True, no_stats)
   \<and> cnt (isProbeCall TsanIgnoreBegin)
         [[CallInst None TsanFuncEntry [funcNameArg sample_env sample_trusted_function],
           CallInst None TsanIgnoreBegin [],
           InvokeInst None TsanPrintVariables
             [getInt32 391, CreatePointerCast sample_global getInt8PtrTy,
              CreateIntCast (ConstantInt 32 300) getInt8Ty False,
              GlobalVariable ''.str.obj'' [] True getInt8PtrTy]],
          [sample_store, InvokeInst (Some 5) (OtherFn ''h'' False) []],
          [CallInst None TsanIgnoreEnd [],
           CallInst None TsanFuncExit [funcNameArg sample_env sample_trusted_function],
           ReturnInst],
          [LandingPadInst, CallInst None TsanIgnoreEnd [],
           CallInst None TsanFuncExit [funcNameArg sample_env sample_trusted_function],
           ResumeInst]] = 1
   \<and> cnt (isProbeCall TsanIgnoreEnd)
         [[CallInst None TsanFuncEntry [funcNameArg sample_env sample_trusted_function],
           CallInst None TsanIgnoreBegin [],
           InvokeInst None TsanPrintVariables
             [getInt32 391, CreatePointerCast sample_global getInt8PtrTy,
              CreateIntCast (ConstantInt 32 300) getInt8Ty False,
              GlobalVariable ''.str.obj'' [] True getInt8PtrTy]],
          [sample_store, InvokeInst (Some 5) (OtherFn ''h'' False) []],
          [CallInst None TsanIgnoreEnd [],
           CallInst None TsanFuncExit [funcNameArg sample_env sample_trusted_function],
           ReturnInst],
          [LandingPadInst, CallInst None TsanIgnoreEnd [],
           CallInst None TsanFuncExit [funcNameArg sample_env sample_trusted_function],
           ResumeInst]] = 2"
proof -
  let ?A = sample_both_function and ?F = sample_trusted_function
  let ?B = "[[CallInst None TsanFuncEntry [funcNameArg sample_env sample_trusted_function],
           CallInst None TsanIgnoreBegin [],
           InvokeInst None TsanPrintVariables
             [getInt32 391, CreatePointerCast sample_global getInt8PtrTy,
              CreateIntCast (ConstantInt 32 300) getInt8Ty False,
              GlobalVariable ''.str.obj'' [] True getInt8PtrTy]],
          [sample_store, InvokeInst (Some 5) (OtherFn ''h'' False) []],
          [CallInst None TsanIgnoreEnd [],
           CallInst None TsanFuncExit [funcNameArg sample_env sample_trusted_function],
           ReturnInst],
          [LandingPadInst, CallInst None TsanIgnoreEnd [],
           CallInst None TsanFuncExit [funcNameArg sample_env sample_trusted_function],
           ResumeInst]]"
  have a1: "\<not> isTsanCtorFunction ?A" and a2: "NoCheckingAtRunTime ?A" and a3: "SanitizeThread ?A"
    by (simp_all add: sample_both_function_def)
  have f1: "\<not> isTsanCtorFunction ?F" and f2: "NoCheckingAtRunTime ?F"
    and f3: "hasCall (blocks ?F)" and f4: "blocks ?F \<noteq> []"
    by (simp_all add: sample_trusted_function_def hasCall_def sample_store_def)
  have sy: "\<forall>J ir. InstrIfSynchronization sample_env J ir = ir" by (simp add: sample_env_def)
  have ra: "runOnFunction sample_env default_options ?A no_stats = Inl AssertionFailed"
    by (simp add: run_eval sample_both_function_def)
  have rf: "runOnFunction sample_env default_options ?F no_stats =
       Inr (?F\<lparr>blocks := ?B\<rparr>, True, no_stats)"
    by (simp add: run_eval sample_trusted_function_def funcNameArg_def)
  note t1 = runtime_ignore_bracket[where F = ?A and env = sample_env
      and opts = default_options and st = no_stats]
  note t2 = runtime_ignore_bracket[where F = ?F and env = sample_env
      and opts = default_options and st = no_stats and F' = "?F\<lparr>blocks := ?B\<rparr>"
      and r = True and st' = no_stats]
  from t1 a1 a2 a3
  have ea: "\<exists>e. runOnFunction sample_env default_options ?A no_stats = Inl e" by blast
  from t2 f1 f2 f3 f4 sy rf
  have "cnt (isProbeCall TsanIgnoreBegin) (blocks (?F\<lparr>blocks := ?B\<rparr>))
             = cnt (isProbeCall TsanIgnoreBegin) (blocks ?F) + 1"
    and "cnt (isProbeCall TsanIgnoreEnd) (blocks (?F\<lparr>blocks := ?B\<rparr>))
             = cnt (isProbeCall TsanIgnoreEnd) (blocks ?F) + exits (blocks (?F\<lparr>blocks := ?B\<rparr>))"
    by blast+
  moreover have "cnt (isProbeCall TsanIgnoreBegin) (blocks ?F) = 0"
    "cnt (isProbeCall TsanIgnoreEnd) (blocks ?F) = 0"
    by (simp_all add: cnt_def sample_trusted_function_def sample_store_def)
  moreover have "exits ?B = 2" by (simp add: exits_def isExit_def)
  ultimately have c1: "cnt (isProbeCall TsanIgnoreBegin) ?B = 1"
    and c2: "cnt (isProbeCall TsanIgnoreEnd) ?B = 2" by simp_all
  show ?thesis
    by (intro conjI) (rule a2 a3 ea ra f2 f3 rf c1 c2)+
qed




end
